theory Spec2Isabelle
  imports Main
begin

section \<open>utils.ts: humanised durations\<close>

text \<open>
  JavaScript renders a whole number in a template literal in decimal, with a leading minus
  sign when it is negative. \<open>String_nat\<close> is that rendering for the naturals,
  \<open>String_int\<close> for the integers. The numbers of the program are doubles; the model
  covers the whole numbers, on which the program's arithmetic is exact.
\<close>

fun String_nat :: "nat \<Rightarrow> string" where
  "String_nat n =
     (if n < 10 then [''0123456789'' ! n]
      else String_nat (n div 10) @ [''0123456789'' ! (n mod 10)])"

declare String_nat.simps [simp del]

definition String_int :: "int \<Rightarrow> string" where
  "String_int i = (if i < 0 then ''-'' @ String_nat (nat (- i)) else String_nat (nat i))"

text \<open>Reading a decimal numeral back, to state that \<open>String_nat\<close> loses nothing.\<close>

definition decimal_value :: "string \<Rightarrow> nat" where
  "decimal_value s = foldl (\<lambda>acc c. 10 * acc + (of_char c - 48)) 0 s"

text \<open>
  The remainder operator \<open>%\<close> of JavaScript truncates towards zero: the result has the
  sign of the dividend. \<open>Math.floor(a / b)\<close> on whole numbers with \<open>b > 0\<close> is the
  flooring \<open>div\<close> of HOL.
\<close>

definition js_rem :: "int \<Rightarrow> int \<Rightarrow> int" where
  "js_rem a b = sgn a * (\<bar>a\<bar> mod \<bar>b\<bar>)"

definition formatDuration :: "int \<Rightarrow> string" where
  "formatDuration seconds =
     (if seconds < 60 then String_int seconds @ ''s''
      else if seconds < 3600 then
        (let m = seconds div 60; s = js_rem seconds 60
         in if s > 0 then String_int m @ ''m '' @ String_int s @ ''s''
            else String_int m @ ''m'')
      else
        (let h = seconds div 3600; m = js_rem seconds 3600 div 60
         in if m > 0 then String_int h @ ''h '' @ String_int m @ ''m''
            else String_int h @ ''h''))"


section \<open>notify.ts: the template renderer\<close>

text \<open>
  Strings are byte lists (UTF-8). The regular expression \<open>/\{(\w+)\}/g\<close> of
  \<open>renderTemplate\<close> only ever matches ASCII characters, so working on bytes and working
  on UTF-16 code units replace the same placeholders. \<open>word_char\<close> is the class \<open>\w\<close>.
\<close>

definition word_char :: "char \<Rightarrow> bool" where
  "word_char c \<longleftrightarrow>
     c \<in> set ''abcdefghijklmnopqrstuvwxyzABCDEFGHIJKLMNOPQRSTUVWXYZ0123456789_''"

text \<open>
  One attempt to match \<open>\{(\w+)\}\<close> at the head of the input. The quantifier is greedy and
  a closing brace is no word character, so the attempt succeeds exactly when the longest
  run of word characters behind the opening brace is not empty and is followed by a
  closing brace. The result is the captured key and the text behind the match.
\<close>

definition match_placeholder :: "string \<Rightarrow> (string \<times> string) option" where
  "match_placeholder s =
     (case s of
        [] \<Rightarrow> None
      | c # r \<Rightarrow>
          if c = CHR ''{'' then
            (let key = takeWhile word_char r in
             case dropWhile word_char r of
               [] \<Rightarrow> None
             | d # rest \<Rightarrow> if key \<noteq> [] \<and> d = CHR ''}'' then Some (key, rest) else None)
          else None)"

text \<open>
  \<open>String.prototype.replace\<close> with the \<open>g\<close> flag scans from left to right: where the
  pattern matches, the replacer's result is emitted and the scan goes on behind the match;
  elsewhere the character is copied. \<open>replace_placeholders f\<close> is that scan for the
  replacer \<open>f\<close>, called with the captured key.
\<close>

function replace_placeholders :: "(string \<Rightarrow> string) \<Rightarrow> string \<Rightarrow> string" where
  "replace_placeholders f [] = []"
| "replace_placeholders f (c # cs) =
     (case match_placeholder (c # cs) of
        Some (key, rest) \<Rightarrow> f key @ replace_placeholders f rest
      | None \<Rightarrow> c # replace_placeholders f cs)"
  by pat_completeness auto
termination
proof (relation "measure (\<lambda>(f, s). length s)")
  show "wf (measure (\<lambda>(f :: string \<Rightarrow> string, s :: string). length s))"
    by simp
next
  fix f :: "string \<Rightarrow> string" and c :: char and cs x2 key rest
  assume m: "match_placeholder (c # cs) = Some x2" and x2: "(key, rest) = x2"
  from m x2 obtain d where d: "dropWhile word_char cs = d # rest"
    by (auto simp: match_placeholder_def Let_def split: list.splits if_splits)
  have "length (dropWhile word_char cs) \<le> length cs"
    by (rule length_dropWhile_le)
  with d show "((f, rest), (f, c # cs)) \<in> measure (\<lambda>(f, s). length s)"
    by simp
next
  fix f :: "string \<Rightarrow> string" and c :: char and cs
  show "((f, cs), (f, c # cs)) \<in> measure (\<lambda>(f, s). length s)"
    by simp
qed

text \<open>
  The variable map is a plain object literal, so \<open>vars[key]\<close> finds the map's own
  entries and, for a key the map does not have, the properties every object inherits from
  \<open>Object.prototype\<close>. Those are functions, and the accessor \<open>__proto__\<close> that yields
  the prototype object; none is \<open>null\<close> or \<open>undefined\<close>, so \<open>??\<close> keeps them and
  \<open>replace\<close> converts them to strings. \<open>Object_prototype\<close> lists the inherited
  property names that consist of word characters, with their string conversion.
\<close>

definition native_function :: "string \<Rightarrow> string" where
  "native_function f = ''function '' @ f @ ''() { [native code] }''"

definition Object_prototype :: "string \<rightharpoonup> string" where
  "Object_prototype = map_of
     [(''constructor'', native_function ''Object''),
      (''__defineGetter__'', native_function ''__defineGetter__''),
      (''__defineSetter__'', native_function ''__defineSetter__''),
      (''hasOwnProperty'', native_function ''hasOwnProperty''),
      (''__lookupGetter__'', native_function ''__lookupGetter__''),
      (''__lookupSetter__'', native_function ''__lookupSetter__''),
      (''isPrototypeOf'', native_function ''isPrototypeOf''),
      (''propertyIsEnumerable'', native_function ''propertyIsEnumerable''),
      (''toString'', native_function ''toString''),
      (''valueOf'', native_function ''valueOf''),
      (''toLocaleString'', native_function ''toLocaleString''),
      (''__proto__'', ''[object Object]'')]"

definition get_var :: "(string \<rightharpoonup> string) \<Rightarrow> string \<Rightarrow> string" where
  \<comment> \<open>the replacer of \<open>renderTemplate\<close>: \<open>vars[key] ?? ""\<close>\<close>
  "get_var vars key =
     (case vars key of
        Some v \<Rightarrow> v
      | None \<Rightarrow> (case Object_prototype key of Some inherited \<Rightarrow> inherited | None \<Rightarrow> ''''))"

definition renderTemplate :: "string \<Rightarrow> (string \<rightharpoonup> string) \<Rightarrow> string" where
  "renderTemplate template vars = replace_placeholders (get_var vars) template"


section \<open>The stored data\<close>

text \<open>
  The rows of the three tables the monitor works on, with the fields the monitor and the
  notifier read or write. Timestamps are milliseconds since the epoch. A row's identity is
  its position in its table: rows are only ever appended or updated in place by the
  monitor.
\<close>

record website =
  website_id :: string
  url :: string
  name :: string
  checkInterval :: int
  isActive :: bool
  lastStatus :: string
  lastCheckedAt :: "int option"
  lastResponseMs :: "int option"
  downTemplate :: "string option"
  upTemplate :: "string option"
  notifyType :: string
  notifyTarget :: string

text \<open>The four variables that the probe of \<open>performCheck\<close> assigns.\<close>

record probe_result =
  status :: string
  statusCode :: "nat option"
  responseTime :: int
  errorMessage :: "string option"

record check = probe_result +
  check_websiteId :: string
  checkedAt :: int

record incident =
  websiteId :: string
  startedAt :: int
  resolvedAt :: "int option"
  duration :: "int option"
  downNotified :: bool
  upNotified :: bool

text \<open>A pending timer: the site \<open>scheduleCheck\<close> will be called with, and the delay.\<close>

record timer =
  callback_websiteId :: string
  delay_ms :: int

record state =
  websites :: "string \<rightharpoonup> website"
  checks :: "check list"
  incidents :: "incident list"
  settings :: "string \<rightharpoonup> string"
  timers :: "string \<rightharpoonup> timer"
  console :: "string list"
  sendMessage_calls :: "(string \<times> string) list"


section \<open>The environment of one tick\<close>

text \<open>
  What the outside world does during one run of \<open>scheduleCheck\<close> is an explicit input:
  the outcome of \<open>fetch\<close> (a response with its status, or a rejection with the error's
  name and message), which persistence calls reject, whether the messaging socket is
  connected and whether its \<open>sendMessage\<close> rejects, what each reading of the clock
  returns, and how the notifier's timestamp is rendered for the locale.
  Persistence calls and clock readings are named by their place in the code.
\<close>

datatype fetch_result = Response nat | Rejected string string

datatype db_call =
    Sched_findUnique
  | Check_findUnique
  | Check_create
  | Website_update
  | Incident_create
  | Down_findUnique
  | Incident_findFirst
  | Incident_update
  | Up_findUnique
  | Setting_findUnique

datatype clock_read =
    StartTime
  | EndTime
  | CheckedAt_default
  | LastCheckedAt
  | StartedAt_default
  | Duration_now
  | ResolvedAt_now

record env =
  fetch :: fetch_result
  prisma_rejects :: "db_call \<Rightarrow> bool"
  wa_connected :: bool
  sendMessage_rejects :: bool
  clock :: "clock_read \<Rightarrow> int"
  now_text :: string

datatype error = PersistenceError db_call | RecordNotFound db_call | SendError

text \<open>
  An asynchronous function is a state transformer that either resolves with a value or
  rejects with an error; the state changes made before a rejection stay in place.
\<close>

type_synonym 'a io = "state \<Rightarrow> (error + 'a) \<times> state"

definition return_io :: "'a \<Rightarrow> 'a io" where
  "return_io x s = (Inr x, s)"

definition bind_io :: "'a io \<Rightarrow> ('a \<Rightarrow> 'b io) \<Rightarrow> 'b io" where
  "bind_io m f s = (case m s of (Inl e, s') \<Rightarrow> (Inl e, s') | (Inr x, s') \<Rightarrow> f x s')"

definition try_catch :: "'a io \<Rightarrow> (error \<Rightarrow> 'a io) \<Rightarrow> 'a io" where
  "try_catch m handler s =
     (case m s of (Inl e, s') \<Rightarrow> handler e s' | (Inr x, s') \<Rightarrow> (Inr x, s'))"

definition console_log :: "string \<Rightarrow> unit io" where
  "console_log line s = (Inr (), s\<lparr>console := console s @ [line]\<rparr>)"

definition prisma :: "env \<Rightarrow> db_call \<Rightarrow> (state \<Rightarrow> 'a \<times> state) \<Rightarrow> 'a io" where
  "prisma env c query s =
     (if prisma_rejects env c then (Inl (PersistenceError c), s)
      else (case query s of (x, s') \<Rightarrow> (Inr x, s')))"


section \<open>The persistence calls\<close>

definition website_findUnique :: "env \<Rightarrow> db_call \<Rightarrow> string \<Rightarrow> website option io" where
  "website_findUnique env c wid = prisma env c (\<lambda>s. (websites s wid, s))"

text \<open>
  Modelled from the spec: the schema file with the column defaults is not among the
  sources. A Check row carries the timestamp of its creation.
\<close>

definition check_row :: "env \<Rightarrow> string \<Rightarrow> probe_result \<Rightarrow> check" where
  "check_row env wid r =
     \<lparr>status = status r, statusCode = statusCode r, responseTime = responseTime r,
      errorMessage = errorMessage r, check_websiteId = wid,
      checkedAt = clock env CheckedAt_default\<rparr>"

definition check_create :: "env \<Rightarrow> string \<Rightarrow> probe_result \<Rightarrow> unit io" where
  "check_create env wid r =
     prisma env Check_create (\<lambda>s. ((), s\<lparr>checks := checks s @ [check_row env wid r]\<rparr>))"

text \<open>An update of a row that does not exist rejects.\<close>

definition website_update :: "env \<Rightarrow> string \<Rightarrow> string \<Rightarrow> int \<Rightarrow> int \<Rightarrow> unit io" where
  "website_update env wid st checked ms s =
     (if prisma_rejects env Website_update then (Inl (PersistenceError Website_update), s)
      else (case websites s wid of
              None \<Rightarrow> (Inl (RecordNotFound Website_update), s)
            | Some w \<Rightarrow>
                (Inr (), s\<lparr>websites := (websites s)(wid \<mapsto>
                   w\<lparr>lastStatus := st, lastCheckedAt := Some checked,
                     lastResponseMs := Some ms\<rparr>)\<rparr>)))"

text \<open>
  Modelled from the spec: the schema file with the column defaults is not among the
  sources. A new Incident starts now and has no end timestamp and no duration; the flag
  for the up-notification is not set; \<open>create\<close> sets the flag for the
  down-notification.
\<close>

definition new_incident :: "env \<Rightarrow> string \<Rightarrow> incident" where
  "new_incident env wid =
     \<lparr>websiteId = wid, startedAt = clock env StartedAt_default, resolvedAt = None,
      duration = None, downNotified = True, upNotified = False\<rparr>"

definition incident_create :: "env \<Rightarrow> string \<Rightarrow> nat io" where
  "incident_create env wid =
     prisma env Incident_create (\<lambda>s.
       (length (incidents s), s\<lparr>incidents := incidents s @ [new_incident env wid]\<rparr>))"

text \<open>
  \<open>findFirst\<close> with \<open>where: { websiteId, resolvedAt: null }\<close> and
  \<open>orderBy: { startedAt: "desc" }\<close>: the unresolved incident of the site that started
  last. Among rows with the same start the choice is the database's; the model takes the
  row that was inserted first.
\<close>

definition is_open :: "string \<Rightarrow> incident \<Rightarrow> bool" where
  "is_open wid i \<longleftrightarrow> websiteId i = wid \<and> resolvedAt i = None"

definition open_incidents :: "string \<Rightarrow> incident list \<Rightarrow> (nat \<times> incident) list" where
  "open_incidents wid incs = filter (\<lambda>(k, i). is_open wid i) (enumerate 0 incs)"

fun latest :: "(nat \<times> incident) list \<Rightarrow> (nat \<times> incident) option" where
  "latest [] = None"
| "latest (x # xs) =
     (case latest xs of
        None \<Rightarrow> Some x
      | Some y \<Rightarrow> if startedAt (snd x) < startedAt (snd y) then Some y else Some x)"

definition incident_findFirst :: "env \<Rightarrow> string \<Rightarrow> (nat \<times> incident) option io" where
  "incident_findFirst env wid =
     prisma env Incident_findFirst (\<lambda>s. (latest (open_incidents wid (incidents s)), s))"

definition incident_update :: "env \<Rightarrow> nat \<Rightarrow> int \<Rightarrow> int \<Rightarrow> unit io" where
  "incident_update env k resolved dur s =
     (if prisma_rejects env Incident_update then (Inl (PersistenceError Incident_update), s)
      else if k < length (incidents s) then
        (Inr (), s\<lparr>incidents := (incidents s)[k := (incidents s ! k)
           \<lparr>resolvedAt := Some resolved, duration := Some dur, upNotified := True\<rparr>]\<rparr>)
      else (Inl (RecordNotFound Incident_update), s))"

definition getSetting :: "env \<Rightarrow> string \<Rightarrow> string option io" where
  \<comment> \<open>\<open>setting?.value ?? null\<close>\<close>
  "getSetting env key = prisma env Setting_findUnique (\<lambda>s. (settings s key, s))"


section \<open>whatsapp.ts: the two send functions\<close>

definition sock_sendMessage :: "env \<Rightarrow> string \<Rightarrow> string \<Rightarrow> unit io" where
  "sock_sendMessage env jid text s =
     (if sendMessage_rejects env
      then (Inl SendError, s\<lparr>sendMessage_calls := sendMessage_calls s @ [(jid, text)]\<rparr>)
      else (Inr (), s\<lparr>sendMessage_calls := sendMessage_calls s @ [(jid, text)]\<rparr>))"

definition not_connected_line :: string where
  "not_connected_line =
     ''[WA] Cannot send '' @ [CHR 0xE2, CHR 0x80, CHR 0x94] @ '' not connected''"

definition sendToNumber :: "env \<Rightarrow> string \<Rightarrow> string \<Rightarrow> unit io" where
  "sendToNumber env phone message =
     (if \<not> wa_connected env then console_log not_connected_line
      else sock_sendMessage env
             (filter (\<lambda>c. c \<in> set ''0123456789'') phone @ ''@s.whatsapp.net'') message)"

definition sendToGroup :: "env \<Rightarrow> string \<Rightarrow> string \<Rightarrow> unit io" where
  "sendToGroup env groupId message =
     (if \<not> wa_connected env then console_log not_connected_line
      else sock_sendMessage env groupId message)"


section \<open>notify.ts: resolving, rendering and sending\<close>

definition DEFAULT_DOWN_TEMPLATE :: string where
  "DEFAULT_DOWN_TEMPLATE =
     [CHR 0xF0, CHR 0x9F, CHR 0x94, CHR 0xB4] @ '' *{name}* is DOWN'' @ [CHR 0x0A] @
     ''URL: {url}'' @ [CHR 0x0A] @ ''Error: {error}'' @ [CHR 0x0A] @ ''Time: {time}''"

definition DEFAULT_UP_TEMPLATE :: string where
  "DEFAULT_UP_TEMPLATE =
     [CHR 0xF0, CHR 0x9F, CHR 0x9F, CHR 0xA2] @ '' *{name}* is back UP'' @ [CHR 0x0A] @
     ''URL: {url}'' @ [CHR 0x0A] @ ''Downtime: {downtime}'' @ [CHR 0x0A] @ ''Time: {time}''"

text \<open>
  A value of type \<open>string | null\<close> in a condition: \<open>null\<close> and the empty string are
  falsy. \<open>truthy\<close> keeps the string exactly when the condition holds.
\<close>

definition truthy :: "string option \<Rightarrow> string option" where
  "truthy v = (case v of None \<Rightarrow> None | Some t \<Rightarrow> if t = [] then None else Some t)"

definition resolveTemplate :: "env \<Rightarrow> string option \<Rightarrow> string \<Rightarrow> string \<Rightarrow> string io" where
  "resolveTemplate env websiteTemplate settingKey hardcodedDefault =
     (case truthy websiteTemplate of
        Some t \<Rightarrow> return_io t
      | None \<Rightarrow>
          bind_io (getSetting env settingKey) (\<lambda>settingDefault.
            case truthy settingDefault of
              Some t \<Rightarrow> return_io t
            | None \<Rightarrow> return_io hardcodedDefault))"

definition sendNotification :: "env \<Rightarrow> website \<Rightarrow> string \<Rightarrow> unit io" where
  "sendNotification env w message =
     try_catch
       (bind_io
          (if notifyType w = ''group'' \<and> notifyTarget w \<noteq> [] then
             sendToGroup env (notifyTarget w) message
           else if notifyTarget w \<noteq> [] then
             sendToNumber env (notifyTarget w) message
           else return_io ())
          (\<lambda>_. console_log (''[Notify] Sent to '' @ notifyType w @ '':'' @ notifyTarget w)))
       (\<lambda>err. console_log (''[Notify] Failed for '' @ name w @ '':''))"

definition down_vars :: "env \<Rightarrow> website \<Rightarrow> string \<Rightarrow> nat option \<Rightarrow> (string \<rightharpoonup> string)" where
  "down_vars env w err code = map_of
     [(''name'', name w), (''url'', url w), (''error'', err),
      (''statusCode'', case code of Some c \<Rightarrow> String_nat c | None \<Rightarrow> []),
      (''time'', now_text env)]"

definition notifyDown :: "env \<Rightarrow> website \<Rightarrow> string \<Rightarrow> nat option \<Rightarrow> unit io" where
  "notifyDown env w err code =
     bind_io (resolveTemplate env (downTemplate w) ''defaultDownTemplate'' DEFAULT_DOWN_TEMPLATE)
       (\<lambda>template. sendNotification env w (renderTemplate template (down_vars env w err code)))"

definition up_vars :: "env \<Rightarrow> website \<Rightarrow> int \<Rightarrow> (string \<rightharpoonup> string)" where
  "up_vars env w downtimeSeconds = map_of
     [(''name'', name w), (''url'', url w),
      (''downtime'', formatDuration downtimeSeconds), (''time'', now_text env)]"

definition notifyUp :: "env \<Rightarrow> website \<Rightarrow> int \<Rightarrow> unit io" where
  "notifyUp env w downtimeSeconds =
     bind_io (resolveTemplate env (upTemplate w) ''defaultUpTemplate'' DEFAULT_UP_TEMPLATE)
       (\<lambda>template. sendNotification env w (renderTemplate template (up_vars env w downtimeSeconds)))"


section \<open>monitor.ts: one check and its rescheduling\<close>

text \<open>
  The probe: the \<open>try\<close> block classifies a response by its status, the \<open>catch\<close> block
  a rejection by the name of the error.
\<close>

definition probe :: "env \<Rightarrow> probe_result" where
  "probe env =
     (case fetch env of
        Response res_status \<Rightarrow>
          (let st = (if res_status < 400 then ''up'' else ''down'')
           in \<lparr>status = st, statusCode = Some res_status,
               responseTime = clock env EndTime - clock env StartTime,
               errorMessage =
                 (if st = ''down'' then Some (''HTTP '' @ String_nat res_status) else None)\<rparr>)
      | Rejected err_name err_message \<Rightarrow>
          \<lparr>status = ''down'', statusCode = None,
           responseTime = clock env EndTime - clock env StartTime,
           errorMessage =
             Some (if err_name = ''AbortError'' then ''Timeout (15s)'' else err_message)\<rparr>)"

definition or_unknown_error :: "string option \<Rightarrow> string" where
  \<comment> \<open>\<open>errorMessage || "Unknown error"\<close>\<close>
  "or_unknown_error m = (case truthy m of Some t \<Rightarrow> t | None \<Rightarrow> ''Unknown error'')"

definition null_or :: "string option \<Rightarrow> string" where
  \<comment> \<open>a \<open>string | null\<close> inside a template literal\<close>
  "null_or m = (case m of Some t \<Rightarrow> t | None \<Rightarrow> ''null'')"

text \<open>
  \<open>performCheck\<close> is an asynchronous function: at every \<open>await\<close> it gives up control,
  and whatever else the process does runs before it resumes. What the rest of the program
  does during the \<open>k\<close>-th await of a run is an input of the model, a state transformer
  \<open>others k\<close>: \<open>await\<close> runs the awaited call, lets the others run and hands the result
  to the continuation; a rejected call skips the continuation. The awaits of one run are
  numbered in the order of the code: the site lookup (0), \<open>fetch\<close> (1), the Check row (2),
  the site update (3), then the incident creation or the incident search (4), the second
  site lookup or the incident update (5), \<open>notifyDown\<close> or the site lookup of the up
  branch (6), \<open>notifyUp\<close> (7). The two notifiers are taken as one step each: their own
  awaits read a setting and call the messaging socket, and touch neither the site rows nor
  the incident table.
\<close>

definition pause :: "(state \<Rightarrow> state) \<Rightarrow> unit io" where
  "pause other s = (Inr (), other s)"

definition await :: "(state \<Rightarrow> state) \<Rightarrow> 'a io \<Rightarrow> ('a \<Rightarrow> 'b io) \<Rightarrow> 'b io" where
  "await other call continue = bind_io call (\<lambda>x. bind_io (pause other) (\<lambda>_. continue x))"

definition performCheck_among :: "(nat \<Rightarrow> state \<Rightarrow> state) \<Rightarrow> env \<Rightarrow> string \<Rightarrow> unit io" where
  "performCheck_among others env wid =
     await (others 0) (website_findUnique env Check_findUnique wid) (\<lambda>found.
       case found of
         None \<Rightarrow> return_io ()
       | Some w \<Rightarrow>
           await (others 1) (return_io (probe env)) (\<lambda>r.
           await (others 2) (check_create env wid r) (\<lambda>_.
           let previousStatus = lastStatus w in
           await (others 3) (website_update env wid (status r) (clock env LastCheckedAt)
                      (responseTime r)) (\<lambda>_.
           if previousStatus = ''up'' \<and> status r = ''down'' then
             bind_io (console_log (''[Monitor] '' @ name w @ '' went DOWN: '' @
                        null_or (errorMessage r))) (\<lambda>_.
             await (others 4) (incident_create env wid) (\<lambda>created.
             await (others 5) (website_findUnique env Down_findUnique wid) (\<lambda>fresh.
               case fresh of
                 Some f \<Rightarrow>
                   await (others 6)
                     (notifyDown env f (or_unknown_error (errorMessage r)) (statusCode r))
                     return_io
               | None \<Rightarrow> return_io ())))
           else if previousStatus = ''down'' \<and> status r = ''up'' then
             bind_io (console_log (''[Monitor] '' @ name w @ '' is back UP'')) (\<lambda>_.
             await (others 4) (incident_findFirst env wid) (\<lambda>openIncident.
               case openIncident of
                 None \<Rightarrow> return_io ()
               | Some (k, inc) \<Rightarrow>
                  (let dur = (clock env Duration_now - startedAt inc) div 1000 in
                   await (others 5) (incident_update env k (clock env ResolvedAt_now) dur) (\<lambda>_.
                   await (others 6) (website_findUnique env Up_findUnique wid) (\<lambda>fresh.
                     case fresh of
                       Some f \<Rightarrow> await (others 7) (notifyUp env f dur) return_io
                     | None \<Rightarrow> return_io ())))))
           else return_io ()))))"

text \<open>
  \<open>performCheck\<close> is the run during whose awaits nothing else happens. A check of one
  site that runs while another check of the same site is in flight is a run of
  \<open>performCheck_among\<close> whose \<open>others\<close> contain the steps of the other check.
\<close>

definition performCheck :: "env \<Rightarrow> string \<Rightarrow> unit io" where
  "performCheck env wid = performCheck_among (\<lambda>k s. s) env wid"

definition scheduleCheck :: "env \<Rightarrow> string \<Rightarrow> unit io" where
  "scheduleCheck env wid =
     bind_io (website_findUnique env Sched_findUnique wid) (\<lambda>found.
       case found of
         None \<Rightarrow> (\<lambda>s. (Inr (), s\<lparr>timers := (timers s)(wid := None)\<rparr>))
       | Some w \<Rightarrow>
           if \<not> isActive w then (\<lambda>s. (Inr (), s\<lparr>timers := (timers s)(wid := None)\<rparr>))
           else
             bind_io (performCheck env (website_id w)) (\<lambda>_.
               (\<lambda>s. (Inr (), s\<lparr>timers := (timers s)(wid \<mapsto>
                  \<lparr>callback_websiteId = wid, delay_ms = checkInterval w * 1000\<rparr>)\<rparr>))))"


section \<open>States, runs and a concrete site\<close>

text \<open>
  The number of unresolved incidents of a site, and the invariant of the incident table:
  at most one incident of the site is unresolved, and none unless the site was last seen
  down.
\<close>

definition open_count :: "string \<Rightarrow> state \<Rightarrow> nat" where
  "open_count wid s = length (filter (is_open wid) (incidents s))"

definition incident_invariant :: "string \<Rightarrow> state \<Rightarrow> bool" where
  "incident_invariant wid s \<longleftrightarrow>
     open_count wid s \<le> 1 \<and>
     (case websites s wid of
        None \<Rightarrow> True
      | Some w \<Rightarrow> lastStatus w \<noteq> ''down'' \<longrightarrow> open_count wid s = 0)"

definition persistence_ok :: "env \<Rightarrow> bool" where
  "persistence_ok env \<longleftrightarrow> (\<forall>c. \<not> prisma_rejects env c)"

text \<open>
  What a run of a check relies on while it awaits: the rest of the program leaves the row
  of the site as it is, and leaves the incidents of the site, each at its place in the
  table, as they are. Checks of other sites do so.
\<close>

definition site_incidents :: "string \<Rightarrow> incident list \<Rightarrow> (nat \<times> incident) list" where
  "site_incidents wid incs = filter (\<lambda>(k, i). websiteId i = wid) (enumerate 0 incs)"

definition leaves_site :: "string \<Rightarrow> (state \<Rightarrow> state) \<Rightarrow> bool" where
  "leaves_site wid other \<longleftrightarrow>
     (\<forall>s. websites (other s) wid = websites s wid \<and>
          site_incidents wid (incidents (other s)) = site_incidents wid (incidents s))"

text \<open>
  The process around the timers. The timer callbacks of \<open>startMonitor\<close> and
  \<open>scheduleCheck\<close> call \<open>scheduleCheck\<close> and drop the promise it returns. The sources
  register no handler for unhandled rejections, and the runtime of the image (Node 22)
  ends the process with exit status 1 when a rejected promise stays unhandled: the timer
  registry is gone with the process, the database keeps what was written. A process that
  has ended runs no further timer.
\<close>

datatype process = Running state | Exited nat state

definition timer_fires :: "env \<Rightarrow> string \<Rightarrow> state \<Rightarrow> process" where
  "timer_fires env wid s =
     (case scheduleCheck env wid s of
        (Inr u, s') \<Rightarrow> Running s'
      | (Inl e, s') \<Rightarrow> Exited 1 (s'\<lparr>timers := Map.empty\<rparr>))"

fun run_ticks :: "(env \<times> string) list \<Rightarrow> process \<Rightarrow> process" where
  "run_ticks [] p = p"
| "run_ticks ((env, wid) # ticks) (Running s) = run_ticks ticks (timer_fires env wid s)"
| "run_ticks ((env, wid) # ticks) (Exited code s) = Exited code s"

definition exit_status :: "process \<Rightarrow> nat option" where
  "exit_status p = (case p of Running s \<Rightarrow> None | Exited code s \<Rightarrow> Some code)"

definition stored :: "process \<Rightarrow> state" where
  "stored p = (case p of Running s \<Rightarrow> s | Exited code s \<Rightarrow> s)"

text \<open>
  The site row after \<open>performCheck\<close> has written the three status fields, and the state
  after its two unconditional writes: the Check row and the site's status fields.
\<close>

definition updated :: "env \<Rightarrow> website \<Rightarrow> website" where
  "updated env w =
     w\<lparr>lastStatus := status (probe env), lastCheckedAt := Some (clock env LastCheckedAt),
       lastResponseMs := Some (responseTime (probe env))\<rparr>"

definition recorded :: "env \<Rightarrow> string \<Rightarrow> website \<Rightarrow> state \<Rightarrow> state" where
  "recorded env wid w s =
     s\<lparr>checks := checks s @ [check_row env wid (probe env)],
       websites := (websites s)(wid \<mapsto> updated env w)\<rparr>"

text \<open>
  Assertions about an asynchronous function: started in a state that satisfies \<open>P\<close>, it
  resolves in a state that satisfies \<open>Q\<close> or rejects in a state that satisfies \<open>E\<close>.
  The three assertions below hold between the steps of a check of a site: after a
  rejection, after the site row has been read, after the status has been written.
\<close>

definition hoare :: "(state \<Rightarrow> bool) \<Rightarrow> 'a io \<Rightarrow> ('a \<Rightarrow> state \<Rightarrow> bool) \<Rightarrow> (state \<Rightarrow> bool) \<Rightarrow> bool" where
  "hoare P m Q E \<longleftrightarrow>
     (\<forall>s. P s \<longrightarrow> (case m s of (Inr x, s') \<Rightarrow> Q x s' | (Inl e, s') \<Rightarrow> E s'))"

definition rejected_at :: "env \<Rightarrow> string \<Rightarrow> state \<Rightarrow> bool" where
  "rejected_at env wid s \<longleftrightarrow> open_count wid s \<le> 1 \<and> \<not> persistence_ok env"

definition site_read :: "string \<Rightarrow> website \<Rightarrow> state \<Rightarrow> bool" where
  "site_read wid w s \<longleftrightarrow> incident_invariant wid s \<and> websites s wid = Some w"

definition site_written :: "env \<Rightarrow> string \<Rightarrow> website \<Rightarrow> state \<Rightarrow> bool" where
  "site_written env wid w s \<longleftrightarrow>
     websites s wid = Some (updated env w) \<and> open_count wid s \<le> 1 \<and>
     (lastStatus w \<noteq> ''down'' \<longrightarrow> open_count wid s = 0)"

text \<open>
  A check without a state change: the site exists and its previous status equals the
  new one (up to up, down to down), or the previous status is neither \<open>up\<close> nor
  \<open>down\<close> (unknown).
\<close>

definition quiet :: "env \<Rightarrow> string \<Rightarrow> state \<Rightarrow> bool" where
  "quiet env wid s =
     (case websites s wid of
        None \<Rightarrow> False
      | Some w \<Rightarrow>
          lastStatus w = status (probe env) \<or>
          (lastStatus w \<noteq> ''up'' \<and> lastStatus w \<noteq> ''down''))"

text \<open>Several checks of one site in a row, one environment per check.\<close>

fun performChecks :: "env list \<Rightarrow> string \<Rightarrow> state \<Rightarrow> state" where
  "performChecks [] wid s = s"
| "performChecks (e # es) wid s = performChecks es wid (snd (performCheck e wid s))"

fun all_quiet :: "env list \<Rightarrow> string \<Rightarrow> state \<Rightarrow> bool" where
  "all_quiet [] wid s = True"
| "all_quiet (e # es) wid s \<longleftrightarrow>
     quiet e wid s \<and> all_quiet es wid (snd (performCheck e wid s))"

text \<open>
  A site, an environment in which every call succeeds and the site answers 200, and a
  state that holds just that site: the inputs of the examples below.
\<close>

definition site0 :: website where
  "site0 =
     \<lparr>website_id = ''w1'', url = ''https://example.org'', name = ''Example'',
      checkInterval = 60, isActive = True, lastStatus = ''up'', lastCheckedAt = None,
      lastResponseMs = None, downTemplate = None, upTemplate = None,
      notifyType = ''personal'', notifyTarget = ''628123''\<rparr>"

definition env0 :: env where
  "env0 =
     \<lparr>fetch = Response 200, prisma_rejects = (\<lambda>c. False), wa_connected = True,
      sendMessage_rejects = False, clock = (\<lambda>r. 1000), now_text = ''3/11/2026, 10.00.00''\<rparr>"

definition state0 :: state where
  "state0 =
     \<lparr>websites = [''w1'' \<mapsto> site0], checks = [], incidents = [], settings = Map.empty,
      timers = Map.empty, console = [], sendMessage_calls = []\<rparr>"

definition incident0 :: incident where
  "incident0 =
     \<lparr>websiteId = ''w1'', startedAt = 0, resolvedAt = None, duration = None,
      downNotified = True, upNotified = False\<rparr>"

text \<open>
  Variations: the site last seen down, alone and with its incident unresolved; the site
  last seen up with an incident unresolved; a probe answered with 500; clocks that read
  999 and then 1000 milliseconds, or 125 seconds throughout; a rejected Check row, a
  rejected incident update.
\<close>

definition site_down :: website where
  "site_down = site0\<lparr>lastStatus := ''down''\<rparr>"

definition state_down :: state where
  "state_down = state0\<lparr>websites := [''w1'' \<mapsto> site_down]\<rparr>"

definition state_down_open :: state where
  "state_down_open = state_down\<lparr>incidents := [incident0]\<rparr>"

definition state_up_open :: state where
  "state_up_open = state0\<lparr>incidents := [incident0]\<rparr>"

definition env_500 :: env where
  "env_500 = env0\<lparr>fetch := Response 500\<rparr>"

definition env_readings :: env where
  "env_readings = env0\<lparr>clock := (\<lambda>r. if r = ResolvedAt_now then 1000 else 999)\<rparr>"

definition env_125s :: env where
  "env_125s = env0\<lparr>clock := (\<lambda>r. 125000)\<rparr>"

definition env_create_rejected :: env where
  "env_create_rejected = env0\<lparr>prisma_rejects := (\<lambda>c. c = Check_create)\<rparr>"

definition env_update_rejected :: env where
  "env_update_rejected = env0\<lparr>prisma_rejects := (\<lambda>c. c = Incident_update)\<rparr>"

text \<open>
  A second site, a state with both sites, and two ways in which the rest of the program
  fills the awaits of a check of the first site: a whole check of the same site that finds
  it down, run while the first check awaits its \<open>fetch\<close>; and a whole check of the second
  site at the same place.
\<close>

definition site2 :: website where
  "site2 = site0\<lparr>website_id := ''w2'', url := ''https://example.net'', name := ''Other''\<rparr>"

definition state_two_sites :: state where
  "state_two_sites = state0\<lparr>websites := [''w1'' \<mapsto> site0, ''w2'' \<mapsto> site2]\<rparr>"

definition same_site_check_during_fetch :: "nat \<Rightarrow> state \<Rightarrow> state" where
  "same_site_check_during_fetch k s = (if k = 1 then snd (performCheck env_500 ''w1'' s) else s)"

definition other_site_check_during_fetch :: "nat \<Rightarrow> state \<Rightarrow> state" where
  "other_site_check_during_fetch k s = (if k = 1 then snd (performCheck env_500 ''w2'' s) else s)"

section \<open>Durations\<close>

lemma digit_nth:
  fixes d :: nat
  shows "d < 10 \<Longrightarrow> of_char (''0123456789'' ! d) = 48 + d"
proof -
  assume "d < 10"
  then have "d = 0 \<or> d = 1 \<or> d = 2 \<or> d = 3 \<or> d = 4 \<or> d = 5 \<or> d = 6 \<or> d = 7 \<or> d = 8 \<or> d = 9"
    by arith
  then show ?thesis by (elim disjE) simp_all
qed

lemma decimal_value_String_nat: "decimal_value (String_nat n) = n"
proof (induction n rule: String_nat.induct)
  case (1 n)
  show ?case
  proof (cases "n < 10")
    case True
    then show ?thesis
      by (subst String_nat.simps) (simp add: decimal_value_def digit_nth)
  next
    case False
    with 1 have ih: "decimal_value (String_nat (n div 10)) = n div 10"
      by simp
    have "n mod 10 < 10"
      by simp
    then have d: "of_char (''0123456789'' ! (n mod 10)) = 48 + (n mod 10)"
      by (rule digit_nth)
    from False ih d show ?thesis
      by (subst String_nat.simps) (simp add: decimal_value_def del: nth_Cons_numeral)
  qed
qed

text \<open>
  Claim C9. For a whole number of seconds \<open>n \<ge> 0\<close>, \<open>formatDuration n\<close> is the number
  followed by \<open>s\<close> below one minute; below one hour the minutes followed by \<open>m\<close> and,
  unless they are zero, a blank and the remaining seconds followed by \<open>s\<close>; from one hour
  on the hours followed by \<open>h\<close> and, unless they are zero, a blank and the remaining
  minutes followed by \<open>m\<close>. In particular 125 seconds are rendered as \<open>2m 5s\<close>.
\<close>

theorem formatDuration_spec:
  "0 \<le> n \<Longrightarrow>
     (n < 60 \<longrightarrow> formatDuration n = String_int n @ ''s'') \<and>
     (60 \<le> n \<and> n < 3600 \<longrightarrow>
        formatDuration n =
          (if n mod 60 = 0 then String_int (n div 60) @ ''m''
           else String_int (n div 60) @ ''m '' @ String_int (n mod 60) @ ''s'')) \<and>
     (3600 \<le> n \<longrightarrow>
        formatDuration n =
          (if n mod 3600 div 60 = 0 then String_int (n div 3600) @ ''h''
           else String_int (n div 3600) @ ''h '' @ String_int (n mod 3600 div 60) @ ''m'')) \<and>
     formatDuration 125 = ''2m 5s''"
proof -
  assume n: "0 \<le> n"
  have r60: "js_rem n 60 = n mod 60" and r3600: "js_rem n 3600 = n mod 3600"
    using n by (simp_all add: js_rem_def sgn_if)
  have m60: "0 \<le> n mod 60" and m3600: "0 \<le> n mod 3600 div 60"
    by (simp_all add: pos_imp_zdiv_nonneg_iff)
  have ex: "formatDuration 125 = ''2m 5s''"
    by (simp add: formatDuration_def js_rem_def String_int_def String_nat.simps)
  show ?thesis
    using m60 m3600 ex by (auto simp: formatDuration_def Let_def r60 r3600)
qed

theorem formatDuration_spec_witness:
  "(0::int) \<le> 3725 \<and> formatDuration 3725 = ''1h 2m'' \<and> formatDuration 125 = ''2m 5s''"
  using formatDuration_spec [of 3725]
  by (simp add: String_int_def String_nat.simps)


section \<open>The template renderer\<close>

lemma not_word_char_braces: "\<not> word_char CHR ''}''" "\<not> word_char CHR ''{''"
  by (simp_all add: word_char_def)

lemma match_placeholder_wellformed:
  assumes "key \<noteq> []" and "\<forall>c\<in>set key. word_char c"
  shows "match_placeholder (CHR ''{'' # key @ CHR ''}'' # rest) = Some (key, rest)"
proof -
  have t: "takeWhile word_char (key @ CHR ''}'' # rest) = key"
    using assms(2) by (simp add: takeWhile_append2 not_word_char_braces)
  have d: "dropWhile word_char (key @ CHR ''}'' # rest) = CHR ''}'' # rest"
    using assms(2) by (simp add: dropWhile_append2 not_word_char_braces)
  show ?thesis
    using assms(1) by (simp add: match_placeholder_def t d)
qed

lemma match_placeholder_SomeD:
  assumes "match_placeholder s = Some (key, rest)"
  shows "key \<noteq> [] \<and> (\<forall>c\<in>set key. word_char c) \<and> s = CHR ''{'' # key @ CHR ''}'' # rest"
proof -
  from assms obtain r where s: "s = CHR ''{'' # r" and k: "key = takeWhile word_char r"
    and d: "dropWhile word_char r = CHR ''}'' # rest" and ne: "key \<noteq> []"
    by (auto simp: match_placeholder_def Let_def split: list.splits if_splits)
  have "r = takeWhile word_char r @ dropWhile word_char r"
    by simp
  with k d have r: "r = key @ CHR ''}'' # rest"
    by simp
  have "\<forall>c\<in>set key. word_char c"
    unfolding k by (auto dest: set_takeWhileD)
  with s r ne show ?thesis
    by simp
qed

text \<open>
  The scan, equation by equation: a character other than an opening brace is copied; a
  well-formed placeholder is replaced by the replacer's result for its key; an opening
  brace that starts no well-formed placeholder is copied.
\<close>

lemma renderTemplate_literal:
  "c \<noteq> CHR ''{'' \<Longrightarrow> renderTemplate (c # cs) vars = c # renderTemplate cs vars"
  by (simp add: renderTemplate_def match_placeholder_def)

lemma renderTemplate_placeholder:
  "key \<noteq> [] \<Longrightarrow> \<forall>c\<in>set key. word_char c \<Longrightarrow>
   renderTemplate (CHR ''{'' # key @ CHR ''}'' # rest) vars =
     get_var vars key @ renderTemplate rest vars"
  by (simp add: renderTemplate_def match_placeholder_wellformed)

lemma renderTemplate_malformed:
  assumes "\<not> (\<exists>key rest. key \<noteq> [] \<and> (\<forall>c\<in>set key. word_char c) \<and> cs = key @ CHR ''}'' # rest)"
  shows "renderTemplate (CHR ''{'' # cs) vars = CHR ''{'' # renderTemplate cs vars"
proof -
  have "match_placeholder (CHR ''{'' # cs) = None"
  proof (cases "match_placeholder (CHR ''{'' # cs)")
    case None
    then show ?thesis .
  next
    case (Some p)
    obtain key rest where "p = (key, rest)"
      by (cases p)
    with Some have "match_placeholder (CHR ''{'' # cs) = Some (key, rest)"
      by simp
    from match_placeholder_SomeD [OF this] assms show ?thesis
      by auto
  qed
  then show ?thesis
    by (simp add: renderTemplate_def)
qed

lemma renderTemplate_no_brace: "CHR ''{'' \<notin> set t \<Longrightarrow> renderTemplate t vars = t"
  by (induction t) (auto simp: renderTemplate_literal renderTemplate_def [of "[]"])

lemma get_var_own: "vars key = Some v \<Longrightarrow> get_var vars key = v"
  by (simp add: get_var_def)

lemma get_var_absent:
  "vars key = None \<Longrightarrow> Object_prototype key = None \<Longrightarrow> get_var vars key = []"
  by (simp add: get_var_def)

text \<open>
  Claim C4. \<open>renderTemplate\<close> replaces every placeholder \<open>{identifier}\<close> by the map's
  value for the identifier and by the empty string when the map has no such entry, keeps
  the text outside placeholders and leaves malformed placeholders alone. The lemmas above
  establish this for every key that is an entry of the map or that no object inherits. For
  an identifier that names an inherited property the replacement is not empty: in the
  template \<open>Site {name}: {constructor}\<close>, rendered with a map that only has \<open>name\<close>, the
  second placeholder becomes the text of the function \<open>Object\<close>.
\<close>

theorem renderTemplate_inherited_key:
  "renderTemplate ''Site {name}: {constructor}'' [''name'' \<mapsto> ''Blog''] =
     ''Site Blog: function Object() { [native code] }''"
  by (simp add: renderTemplate_def match_placeholder_def word_char_def get_var_def
      Object_prototype_def native_function_def)


section \<open>The template resolver\<close>

lemmas io_defs = return_io_def bind_io_def try_catch_def console_log_def prisma_def

lemma resolveTemplate_override:
  "websiteTemplate = Some t \<Longrightarrow> t \<noteq> [] \<Longrightarrow>
   resolveTemplate env websiteTemplate settingKey hardcodedDefault s = (Inr t, s)"
  by (simp add: resolveTemplate_def truthy_def io_defs)

lemma resolveTemplate_setting:
  "websiteTemplate = None \<or> websiteTemplate = Some [] \<Longrightarrow>
   \<not> prisma_rejects env Setting_findUnique \<Longrightarrow>
   settings s settingKey = Some v \<Longrightarrow> v \<noteq> [] \<Longrightarrow>
   resolveTemplate env websiteTemplate settingKey hardcodedDefault s = (Inr v, s)"
  by (auto simp: resolveTemplate_def truthy_def getSetting_def io_defs)

lemma resolveTemplate_fallback:
  "websiteTemplate = None \<or> websiteTemplate = Some [] \<Longrightarrow>
   \<not> prisma_rejects env Setting_findUnique \<Longrightarrow>
   settings s settingKey = None \<or> settings s settingKey = Some [] \<Longrightarrow>
   resolveTemplate env websiteTemplate settingKey hardcodedDefault s =
     (Inr hardcodedDefault, s)"
  by (auto simp: resolveTemplate_def truthy_def getSetting_def io_defs)

lemma resolveTemplate_cases:
  "resolveTemplate env websiteTemplate settingKey hardcodedDefault s =
     (Inl (PersistenceError Setting_findUnique), s) \<or>
   (\<exists>t. resolveTemplate env websiteTemplate settingKey hardcodedDefault s = (Inr t, s))"
  by (auto simp: resolveTemplate_def truthy_def getSetting_def io_defs split: option.splits)

lemma resolveTemplate_ok:
  "\<not> prisma_rejects env Setting_findUnique \<Longrightarrow>
   \<exists>t. resolveTemplate env websiteTemplate settingKey hardcodedDefault s = (Inr t, s)"
  by (auto simp: resolveTemplate_def truthy_def getSetting_def io_defs split: option.splits)

lemma resolveTemplate_state:
  "snd (resolveTemplate env websiteTemplate settingKey hardcodedDefault s) = s"
  using resolveTemplate_cases [of env websiteTemplate settingKey hardcodedDefault s]
  by auto

text \<open>
  Claim C5, as stated: without an override, a global setting that is present is the
  template. A setting that is present with the empty string as its value is not: the
  built-in text is used. The settings page stores the empty string for a template field
  left blank.
\<close>

theorem resolveTemplate_empty_setting:
  "settings (state0\<lparr>settings := [''defaultDownTemplate'' \<mapsto> []]\<rparr>) ''defaultDownTemplate'' = Some [] \<and>
   fst (resolveTemplate env0 None ''defaultDownTemplate'' DEFAULT_DOWN_TEMPLATE
          (state0\<lparr>settings := [''defaultDownTemplate'' \<mapsto> []]\<rparr>)) = Inr DEFAULT_DOWN_TEMPLATE \<and>
   DEFAULT_DOWN_TEMPLATE \<noteq> []"
  by (simp add: resolveTemplate_def truthy_def getSetting_def io_defs env0_def state0_def
      DEFAULT_DOWN_TEMPLATE_def)

text \<open>
  Claim C5, amended. The resolver returns exactly one of three candidates and leaves the
  state alone: the site's override when it is a non-empty string; otherwise, when the
  lookup succeeds, the global setting under the key when it is present and not empty;
  otherwise the built-in text. With neither override nor setting, \<open>notifyDown\<close> and
  \<open>notifyUp\<close> render the built-in texts.
\<close>

theorem resolveTemplate_precedence:
  "(websiteTemplate = Some t \<and> t \<noteq> [] \<longrightarrow>
      resolveTemplate env websiteTemplate settingKey hardcodedDefault s = (Inr t, s)) \<and>
   ((websiteTemplate = None \<or> websiteTemplate = Some []) \<and>
      \<not> prisma_rejects env Setting_findUnique \<and> settings s settingKey = Some v \<and> v \<noteq> [] \<longrightarrow>
      resolveTemplate env websiteTemplate settingKey hardcodedDefault s = (Inr v, s)) \<and>
   ((websiteTemplate = None \<or> websiteTemplate = Some []) \<and>
      \<not> prisma_rejects env Setting_findUnique \<and>
      (settings s settingKey = None \<or> settings s settingKey = Some []) \<longrightarrow>
      resolveTemplate env websiteTemplate settingKey hardcodedDefault s =
        (Inr hardcodedDefault, s)) \<and>
   (downTemplate w = None \<and> \<not> prisma_rejects env Setting_findUnique \<and>
      settings s ''defaultDownTemplate'' = None \<longrightarrow>
      notifyDown env w err code s =
        sendNotification env w (renderTemplate DEFAULT_DOWN_TEMPLATE (down_vars env w err code)) s) \<and>
   (upTemplate w = None \<and> \<not> prisma_rejects env Setting_findUnique \<and>
      settings s ''defaultUpTemplate'' = None \<longrightarrow>
      notifyUp env w d s =
        sendNotification env w (renderTemplate DEFAULT_UP_TEMPLATE (up_vars env w d)) s)"
proof (intro conjI impI)
  assume "downTemplate w = None \<and> \<not> prisma_rejects env Setting_findUnique \<and>
      settings s ''defaultDownTemplate'' = None"
  then have "resolveTemplate env (downTemplate w) ''defaultDownTemplate'' DEFAULT_DOWN_TEMPLATE s =
      (Inr DEFAULT_DOWN_TEMPLATE, s)"
    by (simp add: resolveTemplate_fallback)
  then show "notifyDown env w err code s =
      sendNotification env w (renderTemplate DEFAULT_DOWN_TEMPLATE (down_vars env w err code)) s"
    by (simp add: notifyDown_def bind_io_def)
next
  assume "upTemplate w = None \<and> \<not> prisma_rejects env Setting_findUnique \<and>
      settings s ''defaultUpTemplate'' = None"
  then have "resolveTemplate env (upTemplate w) ''defaultUpTemplate'' DEFAULT_UP_TEMPLATE s =
      (Inr DEFAULT_UP_TEMPLATE, s)"
    by (simp add: resolveTemplate_fallback)
  then show "notifyUp env w d s =
      sendNotification env w (renderTemplate DEFAULT_UP_TEMPLATE (up_vars env w d)) s"
    by (simp add: notifyUp_def bind_io_def)
qed (simp_all add: resolveTemplate_override resolveTemplate_setting resolveTemplate_fallback)

theorem resolveTemplate_precedence_witness:
  "resolveTemplate env0 (Some ''{name} down'') ''defaultDownTemplate'' DEFAULT_DOWN_TEMPLATE state0 =
     (Inr ''{name} down'', state0) \<and>
   resolveTemplate env0 None ''defaultDownTemplate'' DEFAULT_DOWN_TEMPLATE
       (state0\<lparr>settings := [''defaultDownTemplate'' \<mapsto> ''{url} is down'']\<rparr>) =
     (Inr ''{url} is down'', state0\<lparr>settings := [''defaultDownTemplate'' \<mapsto> ''{url} is down'']\<rparr>) \<and>
   resolveTemplate env0 None ''defaultDownTemplate'' DEFAULT_DOWN_TEMPLATE state0 =
     (Inr DEFAULT_DOWN_TEMPLATE, state0) \<and>
   notifyDown env0 site0 ''HTTP 500'' (Some 500) state0 =
     sendNotification env0 site0
       (renderTemplate DEFAULT_DOWN_TEMPLATE (down_vars env0 site0 ''HTTP 500'' (Some 500))) state0"
  using
    resolveTemplate_precedence [of "Some ''{name} down''" "''{name} down''" env0
      "''defaultDownTemplate''" DEFAULT_DOWN_TEMPLATE state0 "[]" site0 "''HTTP 500''" "Some 500" 0]
    resolveTemplate_precedence [of None "[]" env0 "''defaultDownTemplate''" DEFAULT_DOWN_TEMPLATE
      "state0\<lparr>settings := [''defaultDownTemplate'' \<mapsto> ''{url} is down'']\<rparr>" "''{url} is down''"
      site0 "''HTTP 500''" "Some 500" 0]
    resolveTemplate_precedence [of None "[]" env0 "''defaultDownTemplate''" DEFAULT_DOWN_TEMPLATE
      state0 "[]" site0 "''HTTP 500''" "Some 500" 0]
  by (simp add: env0_def state0_def site0_def)


section \<open>The notifier\<close>

lemma sendNotification_resolves: "fst (sendNotification env w message s) = Inr ()"
  by (simp add: sendNotification_def sendToGroup_def sendToNumber_def sock_sendMessage_def io_defs)



lemma sendNotification_frame:
  "websites (snd (sendNotification env w m s)) = websites s"
  "checks (snd (sendNotification env w m s)) = checks s"
  "incidents (snd (sendNotification env w m s)) = incidents s"
  "settings (snd (sendNotification env w m s)) = settings s"
  "timers (snd (sendNotification env w m s)) = timers s"
  by (simp_all add: sendNotification_def sendToGroup_def sendToNumber_def sock_sendMessage_def
      io_defs)

lemma bind_io_same_state:
  "snd (m s) = s \<Longrightarrow>
   bind_io m f s = (case fst (m s) of Inl e \<Rightarrow> (Inl e, s) | Inr x \<Rightarrow> f x s)"
  by (cases "m s") (auto simp: bind_io_def split: sum.splits)

lemma notifyDown_frame:
  "websites (snd (notifyDown env w err code s)) = websites s"
  "checks (snd (notifyDown env w err code s)) = checks s"
  "incidents (snd (notifyDown env w err code s)) = incidents s"
  "settings (snd (notifyDown env w err code s)) = settings s"
  "timers (snd (notifyDown env w err code s)) = timers s"
  by (simp_all add: notifyDown_def bind_io_same_state resolveTemplate_state
      sendNotification_frame split: sum.splits)

lemma notifyUp_frame:
  "websites (snd (notifyUp env w d s)) = websites s"
  "checks (snd (notifyUp env w d s)) = checks s"
  "incidents (snd (notifyUp env w d s)) = incidents s"
  "settings (snd (notifyUp env w d s)) = settings s"
  "timers (snd (notifyUp env w d s)) = timers s"
  by (simp_all add: notifyUp_def bind_io_same_state resolveTemplate_state
      sendNotification_frame split: sum.splits)



lemma notifyDown_ok:
  "\<not> prisma_rejects env Setting_findUnique \<Longrightarrow> fst (notifyDown env w err code s) = Inr ()"
  using resolveTemplate_ok [of env "downTemplate w" "''defaultDownTemplate''"
      DEFAULT_DOWN_TEMPLATE s]
  by (auto simp: notifyDown_def bind_io_def sendNotification_resolves)

lemma notifyUp_ok:
  "\<not> prisma_rejects env Setting_findUnique \<Longrightarrow> fst (notifyUp env w d s) = Inr ()"
  using resolveTemplate_ok [of env "upTemplate w" "''defaultUpTemplate''"
      DEFAULT_UP_TEMPLATE s]
  by (auto simp: notifyUp_def bind_io_def sendNotification_resolves)






section \<open>One check, case by case\<close>

lemma latest_mem: "latest xs = Some y \<Longrightarrow> y \<in> set xs"
  by (induction xs arbitrary: y) (auto split: option.splits if_splits)

lemma latest_None: "latest xs = None \<longleftrightarrow> xs = []"
  by (cases xs) (auto split: option.splits)

lemma latest_max:
  "latest xs = Some y \<Longrightarrow> \<forall>x\<in>set xs. startedAt (snd x) \<le> startedAt (snd y)"
proof (induction xs arbitrary: y)
  case Nil
  then show ?case by simp
next
  case (Cons a xs)
  show ?case
  proof (cases "latest xs")
    case None
    then have "xs = []"
      by (simp add: latest_None)
    with Cons.prems show ?thesis
      by simp
  next
    case (Some z)
    from Cons.IH [OF Some] have ih: "\<forall>x\<in>set xs. startedAt (snd x) \<le> startedAt (snd z)" .
    show ?thesis
    proof (cases "startedAt (snd a) < startedAt (snd z)")
      case True
      with Cons.prems Some have "y = z"
        by simp
      with ih True show ?thesis
        by auto
    next
      case False
      with Cons.prems Some have "y = a"
        by simp
      with ih False show ?thesis
        by fastforce
    qed
  qed
qed

lemma open_incidents_mem:
  "(k, i) \<in> set (open_incidents wid incs) \<longleftrightarrow> k < length incs \<and> incs ! k = i \<and> is_open wid i"
  by (auto simp: open_incidents_def in_set_enumerate_eq)

lemma open_incidents_rows: "map snd (open_incidents wid incs) = filter (is_open wid) incs"
proof -
  have "filter (is_open wid) (map snd (enumerate 0 incs)) =
      map snd (filter (is_open wid \<circ> snd) (enumerate 0 incs))"
    by (rule filter_map)
  then have "filter (is_open wid) incs =
      map snd (filter (\<lambda>p. is_open wid (snd p)) (enumerate 0 incs))"
    by (simp add: o_def)
  then show ?thesis
    by (simp add: open_incidents_def case_prod_unfold)
qed

lemma open_count_length: "open_count wid s = length (open_incidents wid (incidents s))"
proof -
  have "length (map snd (open_incidents wid (incidents s))) =
      length (filter (is_open wid) (incidents s))"
    by (simp only: open_incidents_rows)
  then show ?thesis
    by (simp add: open_count_def)
qed

lemma findFirst_none: "latest (open_incidents wid (incidents s)) = None \<longleftrightarrow> open_count wid s = 0"
  by (simp add: latest_None open_count_length)

lemma findFirst_found:
  assumes "latest (open_incidents wid incs) = Some (k, inc)"
  shows "k < length incs \<and> incs ! k = inc \<and> is_open wid inc"
  using latest_mem [OF assms] by (simp add: open_incidents_mem)

lemma findFirst_latest:
  assumes "latest (open_incidents wid incs) = Some (k, inc)"
    and "j < length incs" and "is_open wid (incs ! j)"
  shows "startedAt (incs ! j) \<le> startedAt inc"
proof -
  from assms(2,3) have "(j, incs ! j) \<in> set (open_incidents wid incs)"
    by (simp add: open_incidents_mem)
  with latest_max [OF assms(1)] show ?thesis
    by fastforce
qed

text \<open>
  What \<open>performCheck\<close> computes on each of its paths when the persistence calls on the
  path succeed: no site, no state change, up to down, down to up without an unresolved
  incident, down to up with one.
\<close>

lemma await_nothing: "await (\<lambda>s. s) call continue = bind_io call continue"
  by (rule ext) (simp add: await_def pause_def bind_io_def split: prod.splits sum.splits)

lemma bind_io_return_left: "bind_io (return_io x) f = f x"
  by (rule ext) (simp add: bind_io_def return_io_def)

lemma bind_io_return_right: "bind_io m return_io = m"
  by (rule ext) (simp add: bind_io_def return_io_def split: prod.splits sum.splits)

text \<open>The run without anything in between, written as one chain of calls.\<close>

lemma performCheck_unfold:
  "performCheck env wid =
     bind_io (website_findUnique env Check_findUnique wid) (\<lambda>found.
       case found of
         None \<Rightarrow> return_io ()
       | Some w \<Rightarrow>
          (let r = probe env in
           bind_io (check_create env wid r) (\<lambda>_.
           let previousStatus = lastStatus w in
           bind_io (website_update env wid (status r) (clock env LastCheckedAt)
                      (responseTime r)) (\<lambda>_.
           if previousStatus = ''up'' \<and> status r = ''down'' then
             bind_io (console_log (''[Monitor] '' @ name w @ '' went DOWN: '' @
                        null_or (errorMessage r))) (\<lambda>_.
             bind_io (incident_create env wid) (\<lambda>created.
             bind_io (website_findUnique env Down_findUnique wid) (\<lambda>fresh.
               case fresh of
                 Some f \<Rightarrow> notifyDown env f (or_unknown_error (errorMessage r)) (statusCode r)
               | None \<Rightarrow> return_io ())))
           else if previousStatus = ''down'' \<and> status r = ''up'' then
             bind_io (console_log (''[Monitor] '' @ name w @ '' is back UP'')) (\<lambda>_.
             bind_io (incident_findFirst env wid) (\<lambda>openIncident.
               case openIncident of
                 None \<Rightarrow> return_io ()
               | Some (k, inc) \<Rightarrow>
                  (let dur = (clock env Duration_now - startedAt inc) div 1000 in
                   bind_io (incident_update env k (clock env ResolvedAt_now) dur) (\<lambda>_.
                   bind_io (website_findUnique env Up_findUnique wid) (\<lambda>fresh.
                     case fresh of
                       Some f \<Rightarrow> notifyUp env f dur
                     | None \<Rightarrow> return_io ())))))
           else return_io ()))))"
  by (simp add: performCheck_def performCheck_among_def await_nothing bind_io_return_left
      bind_io_return_right Let_def cong: option.case_cong if_cong)

lemmas performCheck_defs =
  performCheck_unfold website_findUnique_def check_create_def website_update_def
  incident_create_def incident_findFirst_def incident_update_def Let_def

lemma performCheck_missing:
  "websites s wid = None \<Longrightarrow> \<not> prisma_rejects env Check_findUnique \<Longrightarrow>
   performCheck env wid s = (Inr (), s)"
  by (simp add: performCheck_defs io_defs)

lemma performCheck_quiet:
  "websites s wid = Some w \<Longrightarrow>
   \<not> prisma_rejects env Check_findUnique \<Longrightarrow> \<not> prisma_rejects env Check_create \<Longrightarrow>
   \<not> prisma_rejects env Website_update \<Longrightarrow>
   \<not> (lastStatus w = ''up'' \<and> status (probe env) = ''down'') \<Longrightarrow>
   \<not> (lastStatus w = ''down'' \<and> status (probe env) = ''up'') \<Longrightarrow>
   performCheck env wid s = (Inr (), recorded env wid w s)"
  by (auto simp: performCheck_defs recorded_def updated_def io_defs)

lemma performCheck_down:
  "websites s wid = Some w \<Longrightarrow>
   \<not> prisma_rejects env Check_findUnique \<Longrightarrow> \<not> prisma_rejects env Check_create \<Longrightarrow>
   \<not> prisma_rejects env Website_update \<Longrightarrow> \<not> prisma_rejects env Incident_create \<Longrightarrow>
   \<not> prisma_rejects env Down_findUnique \<Longrightarrow>
   lastStatus w = ''up'' \<Longrightarrow> status (probe env) = ''down'' \<Longrightarrow>
   performCheck env wid s =
     notifyDown env (updated env w) (or_unknown_error (errorMessage (probe env)))
       (statusCode (probe env))
       ((recorded env wid w s)
          \<lparr>console := console s @
             [''[Monitor] '' @ name w @ '' went DOWN: '' @ null_or (errorMessage (probe env))],
           incidents := incidents s @ [new_incident env wid]\<rparr>)"
  by (simp add: performCheck_defs recorded_def updated_def io_defs)

lemma performCheck_up_none:
  "websites s wid = Some w \<Longrightarrow>
   \<not> prisma_rejects env Check_findUnique \<Longrightarrow> \<not> prisma_rejects env Check_create \<Longrightarrow>
   \<not> prisma_rejects env Website_update \<Longrightarrow> \<not> prisma_rejects env Incident_findFirst \<Longrightarrow>
   lastStatus w = ''down'' \<Longrightarrow> status (probe env) = ''up'' \<Longrightarrow>
   latest (open_incidents wid (incidents s)) = None \<Longrightarrow>
   performCheck env wid s =
     (Inr (), (recorded env wid w s)
        \<lparr>console := console s @ [''[Monitor] '' @ name w @ '' is back UP'']\<rparr>)"
  by (simp add: performCheck_defs recorded_def updated_def io_defs)

lemma performCheck_up_resolve:
  "websites s wid = Some w \<Longrightarrow>
   \<not> prisma_rejects env Check_findUnique \<Longrightarrow> \<not> prisma_rejects env Check_create \<Longrightarrow>
   \<not> prisma_rejects env Website_update \<Longrightarrow> \<not> prisma_rejects env Incident_findFirst \<Longrightarrow>
   \<not> prisma_rejects env Incident_update \<Longrightarrow> \<not> prisma_rejects env Up_findUnique \<Longrightarrow>
   lastStatus w = ''down'' \<Longrightarrow> status (probe env) = ''up'' \<Longrightarrow>
   latest (open_incidents wid (incidents s)) = Some (k, inc) \<Longrightarrow>
   performCheck env wid s =
     notifyUp env (updated env w) ((clock env Duration_now - startedAt inc) div 1000)
       ((recorded env wid w s)
          \<lparr>console := console s @ [''[Monitor] '' @ name w @ '' is back UP''],
           incidents := (incidents s)[k := inc
             \<lparr>resolvedAt := Some (clock env ResolvedAt_now),
               duration := Some ((clock env Duration_now - startedAt inc) div 1000),
               upNotified := True\<rparr>]\<rparr>)"
  by (auto simp: performCheck_defs recorded_def updated_def io_defs dest: findFirst_found)

text \<open>
  The incident table after a check, whatever is rejected: unchanged, or one new incident
  appended on an up to down change, or the found incident resolved on a down to up
  change. The other tables: a check row is appended once the site was found and the row
  saved; the timers are never touched; other sites' rows stay as they are.
\<close>

lemma performCheck_incidents_cases:
  "incidents (snd (performCheck env wid s)) = incidents s \<or>
   (\<exists>w. websites s wid = Some w \<and> lastStatus w = ''up'' \<and> status (probe env) = ''down'' \<and>
      incidents (snd (performCheck env wid s)) = incidents s @ [new_incident env wid]) \<or>
   (\<exists>w k inc. websites s wid = Some w \<and> lastStatus w = ''down'' \<and>
      status (probe env) = ''up'' \<and>
      latest (open_incidents wid (incidents s)) = Some (k, inc) \<and>
      incidents (snd (performCheck env wid s)) = (incidents s)[k := inc
        \<lparr>resolvedAt := Some (clock env ResolvedAt_now),
          duration := Some ((clock env Duration_now - startedAt inc) div 1000),
          upNotified := True\<rparr>])"
  by (auto simp: performCheck_defs io_defs notifyDown_frame notifyUp_frame
      split: option.splits dest: findFirst_found)

lemma performCheck_checks:
  "checks (snd (performCheck env wid s)) =
     (if websites s wid \<noteq> None \<and> \<not> prisma_rejects env Check_findUnique \<and>
         \<not> prisma_rejects env Check_create
      then checks s @ [check_row env wid (probe env)] else checks s)"
  by (auto simp: performCheck_defs io_defs notifyDown_frame notifyUp_frame
      split: option.splits)

lemma performCheck_timers: "timers (snd (performCheck env wid s)) = timers s"
  by (auto simp: performCheck_defs io_defs notifyDown_frame notifyUp_frame
      split: option.splits)

lemma performCheck_websites_cases:
  "websites (snd (performCheck env wid s)) = websites s \<or>
   (\<exists>w. websites s wid = Some w \<and>
      websites (snd (performCheck env wid s)) = (websites s)(wid \<mapsto> updated env w))"
  by (auto simp: performCheck_defs io_defs notifyDown_frame notifyUp_frame updated_def
      split: option.splits)

lemma performCheck_quiet_calls:
  "websites s wid = Some w \<Longrightarrow>
   \<not> (lastStatus w = ''up'' \<and> status (probe env) = ''down'') \<Longrightarrow>
   \<not> (lastStatus w = ''down'' \<and> status (probe env) = ''up'') \<Longrightarrow>
   sendMessage_calls (snd (performCheck env wid s)) = sendMessage_calls s \<and>
   incidents (snd (performCheck env wid s)) = incidents s"
  by (auto simp: performCheck_defs io_defs)

section \<open>The probe\<close>

lemma probe_status: "status (probe env) = ''up'' \<or> status (probe env) = ''down''"
  by (simp add: probe_def Let_def split: fetch_result.splits)

text \<open>
  Claim C2. A response with a status below 400 is classified up; a response with a status
  of 400 or more is classified down, with the status as code and the text \<open>HTTP\<close>
  followed by the status as error message; a rejection named \<open>AbortError\<close>, which is
  what the 15 second timeout produces, is classified down without code and with the
  message \<open>Timeout (15s)\<close>; any other rejection is classified down without code and with
  the error's own message. The Check row that \<open>performCheck\<close> saves carries these values.
\<close>

theorem probe_classification:
  "(fetch env = Response c \<and> c < 400 \<longrightarrow>
      status (probe env) = ''up'' \<and> statusCode (probe env) = Some c \<and>
      errorMessage (probe env) = None) \<and>
   (fetch env = Response c \<and> 400 \<le> c \<longrightarrow>
      status (probe env) = ''down'' \<and> statusCode (probe env) = Some c \<and>
      errorMessage (probe env) = Some (''HTTP '' @ String_nat c)) \<and>
   (fetch env = Rejected ''AbortError'' m \<longrightarrow>
      status (probe env) = ''down'' \<and> statusCode (probe env) = None \<and>
      errorMessage (probe env) = Some ''Timeout (15s)'') \<and>
   (fetch env = Rejected n m \<and> n \<noteq> ''AbortError'' \<longrightarrow>
      status (probe env) = ''down'' \<and> statusCode (probe env) = None \<and>
      errorMessage (probe env) = Some m) \<and>
   (websites s wid \<noteq> None \<and> \<not> prisma_rejects env Check_findUnique \<and>
      \<not> prisma_rejects env Check_create \<longrightarrow>
      checks (snd (performCheck env wid s)) =
        checks s @
          [\<lparr>status = status (probe env), statusCode = statusCode (probe env),
            responseTime = clock env EndTime - clock env StartTime,
            errorMessage = errorMessage (probe env), check_websiteId = wid,
            checkedAt = clock env CheckedAt_default\<rparr>])"
proof -
  have "responseTime (probe env) = clock env EndTime - clock env StartTime"
    by (simp add: probe_def Let_def split: fetch_result.splits)
  then show ?thesis
    by (simp add: performCheck_checks check_row_def) (simp add: probe_def Let_def)
qed

theorem probe_classification_witness:
  "status (probe env_500) = ''down'' \<and>
   statusCode (probe env_500) = Some 500 \<and>
   errorMessage (probe env_500) = Some ''HTTP 500'' \<and>
   status (probe env0) = ''up'' \<and>
   errorMessage (probe (env0\<lparr>fetch := Rejected ''AbortError'' ''This operation was aborted''\<rparr>)) =
     Some ''Timeout (15s)'' \<and>
   errorMessage (probe (env0\<lparr>fetch := Rejected ''TypeError'' ''fetch failed''\<rparr>)) =
     Some ''fetch failed'' \<and>
   map errorMessage (checks (snd (performCheck env_500 ''w1'' state0))) =
     [Some ''HTTP 500'']"
  using
    probe_classification [of env_500 500 "[]" "[]" state0 "''w1''"]
    probe_classification [of env0 200 "[]" "[]" state0 "''w1''"]
    probe_classification [of "env0\<lparr>fetch := Rejected ''AbortError'' ''This operation was aborted''\<rparr>"
      0 "''This operation was aborted''" "''AbortError''" state0 "''w1''"]
    probe_classification [of "env0\<lparr>fetch := Rejected ''TypeError'' ''fetch failed''\<rparr>"
      0 "''fetch failed''" "''TypeError''" state0 "''w1''"]
  by (simp add: env_500_def env0_def state0_def String_nat.simps)


section \<open>Checks without a state change\<close>

lemma quiet_no_transition:
  assumes "quiet env wid s"
  obtains w where "websites s wid = Some w"
    and "\<not> (lastStatus w = ''up'' \<and> status (probe env) = ''down'')"
    and "\<not> (lastStatus w = ''down'' \<and> status (probe env) = ''up'')"
  using assms by (auto simp: quiet_def split: option.splits)

lemma performCheck_quiet_frame:
  assumes "quiet env wid s"
  shows "incidents (snd (performCheck env wid s)) = incidents s"
    and "sendMessage_calls (snd (performCheck env wid s)) = sendMessage_calls s"
proof -
  from assms obtain w where w: "websites s wid = Some w"
    and a: "\<not> (lastStatus w = ''up'' \<and> status (probe env) = ''down'')"
    and b: "\<not> (lastStatus w = ''down'' \<and> status (probe env) = ''up'')"
    by (rule quiet_no_transition)
  from performCheck_quiet_calls [OF w a b]
  show "incidents (snd (performCheck env wid s)) = incidents s"
    and "sendMessage_calls (snd (performCheck env wid s)) = sendMessage_calls s"
    by simp_all
qed

lemma performChecks_quiet_frame:
  "all_quiet es wid s \<Longrightarrow>
   incidents (performChecks es wid s) = incidents s \<and>
   sendMessage_calls (performChecks es wid s) = sendMessage_calls s"
proof (induction es arbitrary: s)
  case Nil
  then show ?case by simp
next
  case (Cons e es)
  from Cons.prems have q: "quiet e wid s"
    and rest: "all_quiet es wid (snd (performCheck e wid s))"
    by simp_all
  from Cons.IH [OF rest] performCheck_quiet_frame [OF q] show ?case
    by simp
qed

text \<open>
  Claim C6. A check whose previous and new status are equal (up to up, down to down), or
  whose previous status is neither up nor down, leaves the incident table as it is and
  makes no call to the messaging socket, whatever is rejected on the way; when its three
  persistence calls succeed the state afterwards differs from the state before only by
  the new Check row and the site's status fields. Any number of such checks in a row
  leave the incident table and the list of sent messages unchanged.
\<close>

theorem performCheck_without_transition:
  "(quiet env wid s \<longrightarrow>
      incidents (snd (performCheck env wid s)) = incidents s \<and>
      sendMessage_calls (snd (performCheck env wid s)) = sendMessage_calls s) \<and>
   (quiet env wid s \<and> websites s wid = Some w \<and> \<not> prisma_rejects env Check_findUnique \<and>
      \<not> prisma_rejects env Check_create \<and> \<not> prisma_rejects env Website_update \<longrightarrow>
      performCheck env wid s = (Inr (), recorded env wid w s)) \<and>
   (all_quiet es wid s \<longrightarrow>
      incidents (performChecks es wid s) = incidents s \<and>
      sendMessage_calls (performChecks es wid s) = sendMessage_calls s)"
proof (intro conjI impI)
  assume h: "quiet env wid s \<and> websites s wid = Some w \<and>
      \<not> prisma_rejects env Check_findUnique \<and> \<not> prisma_rejects env Check_create \<and>
      \<not> prisma_rejects env Website_update"
  then have "\<not> (lastStatus w = ''up'' \<and> status (probe env) = ''down'')"
    and "\<not> (lastStatus w = ''down'' \<and> status (probe env) = ''up'')"
    by (auto simp: quiet_def)
  with h show "performCheck env wid s = (Inr (), recorded env wid w s)"
    by (simp add: performCheck_quiet)
qed (simp_all add: performCheck_quiet_frame performChecks_quiet_frame)

theorem performCheck_without_transition_witness:
  "all_quiet [env0, env0] ''w1'' state0 \<and>
   incidents (performChecks [env0, env0] ''w1'' state0) = [] \<and>
   sendMessage_calls (performChecks [env0, env0] ''w1'' state0) = [] \<and>
   quiet env0 ''w1'' state0 \<and>
   performCheck env0 ''w1'' state0 = (Inr (), recorded env0 ''w1'' site0 state0)"
proof -
  have q: "quiet env0 ''w1'' state0"
    by (simp add: quiet_def state0_def site0_def env0_def probe_def)
  have p: "performCheck env0 ''w1'' state0 = (Inr (), recorded env0 ''w1'' site0 state0)"
    by (rule performCheck_quiet [where w = site0])
      (simp_all add: state0_def site0_def env0_def probe_def)
  have q2: "quiet env0 ''w1'' (recorded env0 ''w1'' site0 state0)"
    by (simp add: quiet_def recorded_def updated_def state0_def site0_def env0_def probe_def)
  have aq: "all_quiet [env0, env0] ''w1'' state0"
    using q q2 by (simp add: p)
  have i: "incidents state0 = []" and m: "sendMessage_calls state0 = []"
    by (simp_all add: state0_def)
  from performCheck_without_transition [of env0 "''w1''" state0 site0 "[env0, env0]"] aq
  have "incidents (performChecks [env0, env0] ''w1'' state0) = incidents state0 \<and>
      sendMessage_calls (performChecks [env0, env0] ''w1'' state0) = sendMessage_calls state0"
    by blast
  with i m have "incidents (performChecks [env0, env0] ''w1'' state0) = [] \<and>
      sendMessage_calls (performChecks [env0, env0] ''w1'' state0) = []"
    by (simp only:)
  with q aq p show ?thesis
    by (simp only: simp_thms)
qed


section \<open>Back up without an unresolved incident\<close>

text \<open>
  Claim C10. When a site that was last seen down answers again and has no unresolved
  incident, and the persistence calls of the run succeed, \<open>performCheck\<close> resolves
  without an error: the Check row is saved and the site's status, check time and response
  time are updated, while the incident table and the list of sent messages stay as they
  were.
\<close>

theorem performCheck_up_without_incident:
  assumes "websites s wid = Some w"
    and "lastStatus w = ''down''"
    and "status (probe env) = ''up''"
    and "open_count wid s = 0"
    and "\<not> prisma_rejects env Check_findUnique"
    and "\<not> prisma_rejects env Check_create"
    and "\<not> prisma_rejects env Website_update"
    and "\<not> prisma_rejects env Incident_findFirst"
  shows "fst (performCheck env wid s) = Inr () \<and>
    checks (snd (performCheck env wid s)) = checks s @ [check_row env wid (probe env)] \<and>
    websites (snd (performCheck env wid s)) =
      (websites s)(wid \<mapsto> w\<lparr>lastStatus := ''up'',
         lastCheckedAt := Some (clock env LastCheckedAt),
         lastResponseMs := Some (responseTime (probe env))\<rparr>) \<and>
    incidents (snd (performCheck env wid s)) = incidents s \<and>
    sendMessage_calls (snd (performCheck env wid s)) = sendMessage_calls s"
proof -
  from assms(4) have "latest (open_incidents wid (incidents s)) = None"
    by (simp add: findFirst_none)
  from performCheck_up_none [OF assms(1,5,6,7,8,2,3) this] assms(3) show ?thesis
    by (simp add: recorded_def updated_def)
qed

theorem performCheck_up_without_incident_witness:
  "open_count ''w1'' state_down = 0 \<and>
   fst (performCheck env0 ''w1'' state_down) = Inr () \<and>
   map status (checks (snd (performCheck env0 ''w1'' state_down))) = [''up''] \<and>
   incidents (snd (performCheck env0 ''w1'' state_down)) = [] \<and>
   sendMessage_calls (snd (performCheck env0 ''w1'' state_down)) = []"
  using performCheck_up_without_incident [of state_down "''w1''" site_down env0]
  by (simp add: state_down_def site_down_def state0_def site0_def env0_def probe_def
      open_count_def check_row_def)


section \<open>Back up with an unresolved incident\<close>

text \<open>
  Claim C7, as stated: the stored duration is the whole seconds between \<open>startedAt\<close>
  and the stored \<open>resolvedAt\<close>. The duration is computed from one reading of the clock
  and \<open>resolvedAt\<close> is a second, later reading. For an incident started at 0, with the
  first reading at 999 ms and the second at 1000 ms, the stored duration is 0 while
  \<open>resolvedAt - startedAt\<close> is one whole second.
\<close>

theorem performCheck_duration_two_readings:
  "map startedAt (incidents (snd (performCheck env_readings ''w1'' state_down_open))) = [0] \<and>
   map resolvedAt (incidents (snd (performCheck env_readings ''w1'' state_down_open))) =
     [Some 1000] \<and>
   map duration (incidents (snd (performCheck env_readings ''w1'' state_down_open))) =
     [Some 0] \<and>
   (1000 - 0) div 1000 \<noteq> (0 :: int)"
proof -
  have found: "latest (open_incidents ''w1'' (incidents state_down_open)) = Some (0, incident0)"
    by (simp add: state_down_open_def incident0_def open_incidents_def is_open_def
        enumerate_simps)
  have h1: "websites state_down_open ''w1'' = Some site_down"
    by (simp add: state_down_open_def state_down_def)
  have h2: "lastStatus site_down = ''down''"
    by (simp add: site_down_def)
  have h3: "status (probe env_readings) = ''up''"
    by (simp add: env_readings_def env0_def probe_def)
  have r: "\<not> prisma_rejects env_readings call" for call
    by (simp add: env_readings_def env0_def)
  have tab: "incidents state_down_open = [incident0]"
    and t: "clock env_readings Duration_now = 999" "clock env_readings ResolvedAt_now = 1000"
    by (simp_all add: state_down_open_def env_readings_def env0_def)
  have "incidents (snd (performCheck env_readings ''w1'' state_down_open)) =
      (incidents state_down_open)[0 := incident0
        \<lparr>resolvedAt := Some (clock env_readings ResolvedAt_now),
          duration := Some ((clock env_readings Duration_now - startedAt incident0) div 1000),
          upNotified := True\<rparr>]"
    by (simp add: performCheck_up_resolve [OF h1 r r r r r r h2 h3 found] notifyUp_frame)
  with tab t have "incidents (snd (performCheck env_readings ''w1'' state_down_open)) =
      [incident0\<lparr>resolvedAt := Some 1000, duration := Some 0, upNotified := True\<rparr>]"
    by (simp add: incident0_def)
  then show ?thesis
    by (simp add: incident0_def)
qed

text \<open>
  Claim C7, amended. On a down to up change of a site that has an unresolved incident,
  with the persistence calls of the run succeeding, \<open>performCheck\<close> resolves the
  unresolved incident of the site that started last: \<open>resolvedAt\<close> becomes the clock
  reading taken for it, \<open>duration\<close> the whole seconds from \<open>startedAt\<close> to the clock
  reading taken just before, and \<open>notifyUp\<close> is called with that duration. The duration
  equals \<open>resolvedAt - startedAt\<close> in whole seconds when the two readings agree, and it
  is not negative when the incident did not start after the reading.
\<close>

theorem performCheck_resolves_latest:
  assumes "websites s wid = Some w"
    and "lastStatus w = ''down''"
    and "status (probe env) = ''up''"
    and "0 < open_count wid s"
    and "\<not> prisma_rejects env Check_findUnique"
    and "\<not> prisma_rejects env Check_create"
    and "\<not> prisma_rejects env Website_update"
    and "\<not> prisma_rejects env Incident_findFirst"
    and "\<not> prisma_rejects env Incident_update"
    and "\<not> prisma_rejects env Up_findUnique"
  shows "\<exists>k inc d. k < length (incidents s) \<and> incidents s ! k = inc \<and> is_open wid inc \<and>
    (\<forall>j < length (incidents s). is_open wid (incidents s ! j) \<longrightarrow>
       startedAt (incidents s ! j) \<le> startedAt inc) \<and>
    d = (clock env Duration_now - startedAt inc) div 1000 \<and>
    incidents (snd (performCheck env wid s)) =
      (incidents s)[k := inc\<lparr>resolvedAt := Some (clock env ResolvedAt_now),
         duration := Some d, upNotified := True\<rparr>] \<and>
    (clock env Duration_now = clock env ResolvedAt_now \<longrightarrow>
       d = (clock env ResolvedAt_now - startedAt inc) div 1000) \<and>
    (startedAt inc \<le> clock env Duration_now \<longrightarrow> 0 \<le> d) \<and>
    performCheck env wid s =
      notifyUp env (updated env w) d
        ((recorded env wid w s)
           \<lparr>console := console s @ [''[Monitor] '' @ name w @ '' is back UP''],
            incidents := (incidents s)[k := inc\<lparr>resolvedAt := Some (clock env ResolvedAt_now),
              duration := Some d, upNotified := True\<rparr>]\<rparr>)"
proof -
  from assms(4) have "latest (open_incidents wid (incidents s)) \<noteq> None"
    by (simp add: findFirst_none)
  then obtain k inc where found: "latest (open_incidents wid (incidents s)) = Some (k, inc)"
    by (cases "latest (open_incidents wid (incidents s))") auto
  let ?d = "(clock env Duration_now - startedAt inc) div 1000"
  from findFirst_found [OF found]
  have k: "k < length (incidents s)" and inc: "incidents s ! k = inc" and op: "is_open wid inc"
    by simp_all
  have latest: "\<forall>j < length (incidents s). is_open wid (incidents s ! j) \<longrightarrow>
      startedAt (incidents s ! j) \<le> startedAt inc"
    using findFirst_latest [OF found] by blast
  note run = performCheck_up_resolve [OF assms(1,5,6,7,8,9,10,2,3) found]
  have tab: "incidents (snd (performCheck env wid s)) =
      (incidents s)[k := inc\<lparr>resolvedAt := Some (clock env ResolvedAt_now),
         duration := Some ?d, upNotified := True\<rparr>]"
    by (simp add: run notifyUp_frame)
  have nonneg: "startedAt inc \<le> clock env Duration_now \<longrightarrow> 0 \<le> ?d"
    by (simp add: pos_imp_zdiv_nonneg_iff)
  have same: "clock env Duration_now = clock env ResolvedAt_now \<longrightarrow>
      ?d = (clock env ResolvedAt_now - startedAt inc) div 1000"
    by simp
  have "?d = (clock env Duration_now - startedAt inc) div 1000"
    by (rule refl)
  with k inc op latest tab same nonneg run show ?thesis
    by (intro exI [of _ k] exI [of _ inc] exI [of _ ?d] conjI)
qed

theorem performCheck_resolves_latest_witness:
  "0 < open_count ''w1'' state_down_open \<and>
   map duration (incidents (snd (performCheck env_125s ''w1'' state_down_open))) =
     [Some 125] \<and>
   map resolvedAt (incidents (snd (performCheck env_125s ''w1'' state_down_open))) =
     [Some 125000]"
proof -
  have c: "0 < open_count ''w1'' state_down_open"
    by (simp add: state_down_open_def open_count_def incident0_def is_open_def)
  have h1: "websites state_down_open ''w1'' = Some site_down"
    by (simp add: state_down_open_def state_down_def)
  have h2: "lastStatus site_down = ''down''"
    by (simp add: site_down_def)
  have h3: "status (probe env_125s) = ''up''"
    by (simp add: env_125s_def env0_def probe_def)
  have r: "\<not> prisma_rejects env_125s call" for call
    by (simp add: env_125s_def env0_def)
  have tab: "incidents state_down_open = [incident0]"
    and t: "clock env_125s Duration_now = 125000" "clock env_125s ResolvedAt_now = 125000"
    by (simp_all add: state_down_open_def env_125s_def env0_def)
  from performCheck_resolves_latest [OF h1 h2 h3 c r r r r r r]
  obtain k inc d where k: "k < length (incidents state_down_open)"
    and inc: "incidents state_down_open ! k = inc"
    and d: "d = (clock env_125s Duration_now - startedAt inc) div 1000"
    and after: "incidents (snd (performCheck env_125s ''w1'' state_down_open)) =
      (incidents state_down_open)[k := inc\<lparr>resolvedAt := Some (clock env_125s ResolvedAt_now),
         duration := Some d, upNotified := True\<rparr>]"
    by (elim exE conjE)
  from k tab have k0: "k = 0"
    by simp
  with inc tab have i0: "inc = incident0"
    by simp
  with d t have "d = 125"
    by (simp add: incident0_def)
  with after k0 tab t i0
  have "incidents (snd (performCheck env_125s ''w1'' state_down_open)) =
      [incident0\<lparr>resolvedAt := Some 125000, duration := Some 125, upNotified := True\<rparr>]"
    by simp
  with c show ?thesis
    by simp
qed


section \<open>The invariant of the incident table\<close>

lemma not_open_resolved:
  "\<not> is_open site (inc\<lparr>resolvedAt := Some t, duration := d, upNotified := u\<rparr>)"
  by (simp add: is_open_def)

lemma count_open_update:
  assumes "k < length xs" and "\<not> is_open site y"
  shows "length (filter (is_open site) (xs[k := y])) =
    length (filter (is_open site) xs) - (if is_open site (xs ! k) then 1 else 0)"
proof -
  have a: "xs[k := y] = take k xs @ y # drop (Suc k) xs"
    using assms(1) by (rule upd_conv_take_nth_drop)
  have b: "xs = take k xs @ xs ! k # drop (Suc k) xs"
    using assms(1) by (rule id_take_nth_drop)
  have "length (filter (is_open site) xs) =
      length (filter (is_open site) (take k xs @ xs ! k # drop (Suc k) xs))"
    using b by simp
  with assms(2) show ?thesis
    by (simp add: a)
qed

text \<open>
  How a check changes the number of unresolved incidents of a site, whatever is rejected:
  not at all, or by one more for the checked site on an up to down change, or by one less
  for the checked site on a down to up change.
\<close>

lemma performCheck_open_count_cases:
  "open_count site (snd (performCheck env wid s)) = open_count site s \<or>
   (\<exists>w. websites s wid = Some w \<and> lastStatus w = ''up'' \<and> status (probe env) = ''down'' \<and>
      open_count site (snd (performCheck env wid s)) =
        open_count site s + (if site = wid then 1 else 0)) \<or>
   (\<exists>w. websites s wid = Some w \<and> lastStatus w = ''down'' \<and> status (probe env) = ''up'' \<and>
      open_count site (snd (performCheck env wid s)) =
        open_count site s - (if site = wid then 1 else 0))"
proof -
  from performCheck_incidents_cases [of env wid s]
  consider
    (same) "incidents (snd (performCheck env wid s)) = incidents s"
  | (created) w where "websites s wid = Some w" "lastStatus w = ''up''"
      "status (probe env) = ''down''"
      "incidents (snd (performCheck env wid s)) = incidents s @ [new_incident env wid]"
  | (resolved) w k inc where "websites s wid = Some w" "lastStatus w = ''down''"
      "status (probe env) = ''up''"
      "latest (open_incidents wid (incidents s)) = Some (k, inc)"
      "incidents (snd (performCheck env wid s)) = (incidents s)[k := inc
        \<lparr>resolvedAt := Some (clock env ResolvedAt_now),
          duration := Some ((clock env Duration_now - startedAt inc) div 1000),
          upNotified := True\<rparr>]"
    by blast
  then show ?thesis
  proof cases
    case same
    then show ?thesis
      by (simp add: open_count_def)
  next
    case created
    have "is_open site (new_incident env wid) \<longleftrightarrow> site = wid"
      by (auto simp: is_open_def new_incident_def)
    with created show ?thesis
      by (simp add: open_count_def)
  next
    case resolved
    from findFirst_found [OF resolved(4)]
    have k: "k < length (incidents s)" and inc: "incidents s ! k = inc"
      and op: "is_open wid inc"
      by simp_all
    from op have "is_open site (incidents s ! k) \<longleftrightarrow> site = wid"
      by (auto simp: inc is_open_def)
    with resolved(1,2,3) show ?thesis
      by (simp add: open_count_def resolved(5) count_open_update [OF k not_open_resolved])
  qed
qed

lemma performCheck_other_site:
  assumes "site \<noteq> wid"
  shows "websites (snd (performCheck env wid s)) site = websites s site"
    and "open_count site (snd (performCheck env wid s)) = open_count site s"
proof -
  from performCheck_websites_cases [of env wid s] assms
  show "websites (snd (performCheck env wid s)) site = websites s site"
    by auto
  from performCheck_open_count_cases [of site env wid s] assms
  show "open_count site (snd (performCheck env wid s)) = open_count site s"
    by auto
qed

lemma hoare_bind:
  assumes "hoare P m R E" and "\<And>x. hoare (R x) (f x) Q E"
  shows "hoare P (bind_io m f) Q E"
  using assms by (fastforce simp: hoare_def bind_io_def split: prod.splits sum.splits)

lemma hoare_await:
  assumes "hoare P call R E" and "\<And>x s. R x s \<Longrightarrow> R x (other s)"
    and "\<And>x. hoare (R x) (continue x) Q E"
  shows "hoare P (await other call continue) Q E"
proof -
  have "hoare (R x) (bind_io (pause other) (\<lambda>_. continue x)) Q E" for x
    using assms(2,3) by (fastforce simp: hoare_def bind_io_def pause_def split: prod.splits sum.splits)
  with assms(1) show ?thesis
    unfolding await_def by (rule hoare_bind)
qed

lemma hoare_return: "(\<And>s. P s \<Longrightarrow> Q x s) \<Longrightarrow> hoare P (return_io x) Q E"
  by (simp add: hoare_def return_io_def)

lemma hoare_pre: "(\<And>s. P s \<Longrightarrow> P' s) \<Longrightarrow> hoare P' m Q E \<Longrightarrow> hoare P m Q E"
  by (simp add: hoare_def)

lemma open_incidents_site:
  "open_incidents wid incs = filter (\<lambda>(k, i). resolvedAt i = None) (site_incidents wid incs)"
  by (simp add: open_incidents_def site_incidents_def is_open_def case_prod_unfold conj_commute)

lemma leaves_site_row: "leaves_site wid other \<Longrightarrow> websites (other s) wid = websites s wid"
  by (simp add: leaves_site_def)

lemma leaves_site_open:
  "leaves_site wid other \<Longrightarrow>
   open_incidents wid (incidents (other s)) = open_incidents wid (incidents s)"
  by (simp add: leaves_site_def open_incidents_site)

lemma leaves_site_count:
  "leaves_site wid other \<Longrightarrow> open_count wid (other s) = open_count wid s"
  by (simp add: open_count_length leaves_site_open)

lemma incident_invariant_iff:
  "incident_invariant wid s \<longleftrightarrow>
     open_count wid s \<le> 1 \<and>
     (\<forall>w. websites s wid = Some w \<longrightarrow> lastStatus w \<noteq> ''down'' \<longrightarrow> open_count wid s = 0)"
  by (simp add: incident_invariant_def split: option.splits)

lemma leaves_site_invariant:
  "leaves_site wid other \<Longrightarrow> incident_invariant wid (other s) = incident_invariant wid s"
  by (simp add: incident_invariant_iff leaves_site_count leaves_site_row)

lemma leaves_site_found:
  assumes "leaves_site wid other"
    and "latest (open_incidents wid (incidents s)) = Some found"
  shows "latest (open_incidents wid (incidents (other s))) = Some found"
  using assms by (simp add: leaves_site_open)

lemma rejects_not_ok: "prisma_rejects env c \<Longrightarrow> \<not> persistence_ok env"
  by (auto simp: persistence_ok_def)

lemma invariant_le: "incident_invariant wid s \<Longrightarrow> open_count wid s \<le> Suc 0"
  by (simp add: incident_invariant_iff)

lemma hoare_findUnique:
  "hoare (incident_invariant wid) (website_findUnique env c wid)
     (\<lambda>found s. incident_invariant wid s \<and> websites s wid = found) (rejected_at env wid)"
  by (auto simp: hoare_def website_findUnique_def prisma_def rejected_at_def rejects_not_ok
      invariant_le)

lemma unchanged_tables:
  assumes "websites s' = websites s" and "incidents s' = incidents s"
  shows "incident_invariant wid s' = incident_invariant wid s"
    and "open_count wid s' = open_count wid s"
  using assms by (simp_all add: incident_invariant_iff open_count_def)

lemma hoare_notifyDown:
  "hoare (incident_invariant wid) (notifyDown env f err code)
     (\<lambda>u. incident_invariant wid) (rejected_at env wid)"
proof -
  {
    fix s
    assume inv: "incident_invariant wid s"
    obtain r s' where run: "notifyDown env f err code s = (r, s')"
      by (cases "notifyDown env f err code s")
    have fr: "websites s' = websites s" "incidents s' = incidents s"
      using notifyDown_frame(1,3) [of env f err code s] by (simp_all add: run)
    have ok: "\<not> prisma_rejects env Setting_findUnique \<Longrightarrow> r = Inr ()"
      using notifyDown_ok [of env f err code s] by (simp add: run)
    have "case (r, s') of (Inr x, t) \<Rightarrow> incident_invariant wid t
        | (Inl e, t) \<Rightarrow> rejected_at env wid t"
      using inv ok
      by (cases r) (auto simp: unchanged_tables [OF fr] rejected_at_def invariant_le
          persistence_ok_def)
    then have "case notifyDown env f err code s of (Inr x, t) \<Rightarrow> incident_invariant wid t
        | (Inl e, t) \<Rightarrow> rejected_at env wid t"
      by (simp add: run)
  }
  then show ?thesis
    by (simp add: hoare_def)
qed

lemma hoare_notifyUp:
  "hoare (incident_invariant wid) (notifyUp env f d)
     (\<lambda>u. incident_invariant wid) (rejected_at env wid)"
proof -
  {
    fix s
    assume inv: "incident_invariant wid s"
    obtain r s' where run: "notifyUp env f d s = (r, s')"
      by (cases "notifyUp env f d s")
    have fr: "websites s' = websites s" "incidents s' = incidents s"
      using notifyUp_frame(1,3) [of env f d s] by (simp_all add: run)
    have ok: "\<not> prisma_rejects env Setting_findUnique \<Longrightarrow> r = Inr ()"
      using notifyUp_ok [of env f d s] by (simp add: run)
    have "case (r, s') of (Inr x, t) \<Rightarrow> incident_invariant wid t
        | (Inl e, t) \<Rightarrow> rejected_at env wid t"
      using inv ok
      by (cases r) (auto simp: unchanged_tables [OF fr] rejected_at_def invariant_le
          persistence_ok_def)
    then have "case notifyUp env f d s of (Inr x, t) \<Rightarrow> incident_invariant wid t
        | (Inl e, t) \<Rightarrow> rejected_at env wid t"
      by (simp add: run)
  }
  then show ?thesis
    by (simp add: hoare_def)
qed

text \<open>The end of either branch: the second site lookup and the notifier.\<close>

lemma hoare_down_tail:
  fixes others :: "nat \<Rightarrow> state \<Rightarrow> state"
  assumes rely: "\<And>k. leaves_site wid (others k)"
  shows "hoare (incident_invariant wid)
     (await (others 5) (website_findUnique env Down_findUnique wid) (\<lambda>fresh.
        case fresh of
          Some f \<Rightarrow> await (others 6) (notifyDown env f err code) return_io
        | None \<Rightarrow> return_io ()))
     (\<lambda>u. incident_invariant wid) (rejected_at env wid)"
proof (rule hoare_await [OF hoare_findUnique])
  fix x s
  assume "incident_invariant wid s \<and> websites s wid = x"
  then show "incident_invariant wid (others 5 s) \<and> websites (others 5 s) wid = x"
    by (simp add: leaves_site_invariant [OF rely] leaves_site_row [OF rely])
next
  fix x
  show "hoare (\<lambda>s. incident_invariant wid s \<and> websites s wid = x)
      (case x of
         Some f \<Rightarrow> await (others 6) (notifyDown env f err code) return_io
       | None \<Rightarrow> return_io ())
      (\<lambda>u. incident_invariant wid) (rejected_at env wid)"
  proof (cases x)
    case None
    then show ?thesis
      by (simp add: hoare_def return_io_def)
  next
    case (Some f)
    have "hoare (incident_invariant wid) (await (others 6) (notifyDown env f err code) return_io)
        (\<lambda>u. incident_invariant wid) (rejected_at env wid)"
      by (rule hoare_await [OF hoare_notifyDown])
        (simp_all add: leaves_site_invariant [OF rely] hoare_return)
    then show ?thesis
      unfolding Some by (simp add: hoare_def)
  qed
qed

lemma hoare_up_tail:
  fixes others :: "nat \<Rightarrow> state \<Rightarrow> state"
  assumes rely: "\<And>k. leaves_site wid (others k)"
  shows "hoare (incident_invariant wid)
     (await (others 6) (website_findUnique env Up_findUnique wid) (\<lambda>fresh.
        case fresh of
          Some f \<Rightarrow> await (others 7) (notifyUp env f d) return_io
        | None \<Rightarrow> return_io ()))
     (\<lambda>u. incident_invariant wid) (rejected_at env wid)"
proof (rule hoare_await [OF hoare_findUnique])
  fix x s
  assume "incident_invariant wid s \<and> websites s wid = x"
  then show "incident_invariant wid (others 6 s) \<and> websites (others 6 s) wid = x"
    by (simp add: leaves_site_invariant [OF rely] leaves_site_row [OF rely])
next
  fix x
  show "hoare (\<lambda>s. incident_invariant wid s \<and> websites s wid = x)
      (case x of
         Some f \<Rightarrow> await (others 7) (notifyUp env f d) return_io
       | None \<Rightarrow> return_io ())
      (\<lambda>u. incident_invariant wid) (rejected_at env wid)"
  proof (cases x)
    case None
    then show ?thesis
      by (simp add: hoare_def return_io_def)
  next
    case (Some f)
    have "hoare (incident_invariant wid) (await (others 7) (notifyUp env f d) return_io)
        (\<lambda>u. incident_invariant wid) (rejected_at env wid)"
      by (rule hoare_await [OF hoare_notifyUp])
        (simp_all add: leaves_site_invariant [OF rely] hoare_return)
    then show ?thesis
      unfolding Some by (simp add: hoare_def)
  qed
qed


lemma hoare_console_log: "(\<And>s l. P s \<Longrightarrow> P (s\<lparr>console := l\<rparr>)) \<Longrightarrow> hoare P (console_log line) (\<lambda>u. P) E"
  by (simp add: hoare_def console_log_def)

lemma site_written_console:
  "site_written env wid w s \<Longrightarrow> site_written env wid w (s\<lparr>console := l\<rparr>)"
  by (simp add: site_written_def open_count_def)

lemma site_written_le: "site_written env wid w s \<Longrightarrow> open_count wid s \<le> Suc 0"
  by (simp add: site_written_def)

lemma leaves_site_written:
  "leaves_site wid other \<Longrightarrow> site_written env wid w (other s) = site_written env wid w s"
  by (simp add: site_written_def leaves_site_count leaves_site_row)

lemma hoare_incident_create:
  assumes "lastStatus w = ''up''" and "status (probe env) = ''down''"
  shows "hoare (site_written env wid w) (incident_create env wid)
    (\<lambda>created. incident_invariant wid) (rejected_at env wid)"
proof -
  have "is_open wid (new_incident env wid)"
    by (simp add: is_open_def new_incident_def)
  with assms show ?thesis
    by (auto simp: hoare_def incident_create_def prisma_def rejected_at_def rejects_not_ok
        site_written_def incident_invariant_iff open_count_def updated_def)
qed

lemma hoare_down_branch:
  fixes others :: "nat \<Rightarrow> state \<Rightarrow> state"
  assumes rely: "\<And>k. leaves_site wid (others k)"
    and "lastStatus w = ''up''" and "status (probe env) = ''down''"
  shows "hoare (site_written env wid w)
     (bind_io (console_log line) (\<lambda>_.
      await (others 4) (incident_create env wid) (\<lambda>created.
      await (others 5) (website_findUnique env Down_findUnique wid) (\<lambda>fresh.
        case fresh of
          Some f \<Rightarrow> await (others 6) (notifyDown env f err code) return_io
        | None \<Rightarrow> return_io ()))))
     (\<lambda>u. incident_invariant wid) (rejected_at env wid)"
proof (rule hoare_bind)
  show "hoare (site_written env wid w) (console_log line) (\<lambda>u. site_written env wid w)
      (rejected_at env wid)"
    by (rule hoare_console_log) (rule site_written_console)
next
  fix x :: unit
  show "hoare (site_written env wid w)
      (await (others 4) (incident_create env wid) (\<lambda>created.
       await (others 5) (website_findUnique env Down_findUnique wid) (\<lambda>fresh.
         case fresh of
           Some f \<Rightarrow> await (others 6) (notifyDown env f err code) return_io
         | None \<Rightarrow> return_io ())))
      (\<lambda>u. incident_invariant wid) (rejected_at env wid)"
    by (rule hoare_await [OF hoare_incident_create [OF assms(2,3)] _ hoare_down_tail [OF rely]])
      (simp add: leaves_site_invariant [OF rely])
qed

lemma hoare_findFirst:
  "hoare (site_written env wid w) (incident_findFirst env wid)
     (\<lambda>found s. site_written env wid w s \<and> latest (open_incidents wid (incidents s)) = found)
     (rejected_at env wid)"
  by (auto simp: hoare_def incident_findFirst_def prisma_def rejected_at_def rejects_not_ok
      site_written_le)

lemma hoare_incident_update:
  assumes "status (probe env) = ''up''"
  shows "hoare
    (\<lambda>s. site_written env wid w s \<and> latest (open_incidents wid (incidents s)) = Some (k, inc))
    (incident_update env k resolved dur)
    (\<lambda>u. incident_invariant wid) (rejected_at env wid)"
proof -
  {
    fix s
    assume sw: "site_written env wid w s"
      and found: "latest (open_incidents wid (incidents s)) = Some (k, inc)"
    from findFirst_found [OF found]
    have k: "k < length (incidents s)" and op: "is_open wid (incidents s ! k)"
      by simp_all
    let ?s' = "s\<lparr>incidents := (incidents s)[k := (incidents s ! k)
        \<lparr>resolvedAt := Some resolved, duration := Some dur, upNotified := True\<rparr>]\<rparr>"
    have "open_count wid ?s' = open_count wid s - 1"
      using op by (simp add: open_count_def count_open_update [OF k not_open_resolved])
    with sw have "open_count wid ?s' = 0"
      by (simp add: site_written_def)
    with sw assms have "incident_invariant wid ?s'"
      by (simp add: incident_invariant_iff site_written_def)
    with sw k have "case incident_update env k resolved dur s of
        (Inr x, t) \<Rightarrow> incident_invariant wid t | (Inl e, t) \<Rightarrow> rejected_at env wid t"
      by (simp add: incident_update_def rejected_at_def rejects_not_ok site_written_le)
  }
  then show ?thesis
    by (simp add: hoare_def)
qed

lemma hoare_up_branch:
  fixes others :: "nat \<Rightarrow> state \<Rightarrow> state"
  assumes rely: "\<And>k. leaves_site wid (others k)"
    and "lastStatus w = ''down''" and up: "status (probe env) = ''up''"
  shows "hoare (site_written env wid w)
     (bind_io (console_log line) (\<lambda>_.
      await (others 4) (incident_findFirst env wid) (\<lambda>openIncident.
        case openIncident of
          None \<Rightarrow> return_io ()
        | Some (k, inc) \<Rightarrow>
            await (others 5)
              (incident_update env k (clock env ResolvedAt_now)
                 ((clock env Duration_now - startedAt inc) div 1000)) (\<lambda>_.
            await (others 6) (website_findUnique env Up_findUnique wid) (\<lambda>fresh.
              case fresh of
                Some f \<Rightarrow>
                  await (others 7)
                    (notifyUp env f ((clock env Duration_now - startedAt inc) div 1000))
                    return_io
              | None \<Rightarrow> return_io ())))))
     (\<lambda>u. incident_invariant wid) (rejected_at env wid)"
proof (rule hoare_bind)
  show "hoare (site_written env wid w) (console_log line) (\<lambda>u. site_written env wid w)
      (rejected_at env wid)"
    by (rule hoare_console_log) (rule site_written_console)
next
  fix x :: unit
  show "hoare (site_written env wid w)
      (await (others 4) (incident_findFirst env wid) (\<lambda>openIncident.
        case openIncident of
          None \<Rightarrow> return_io ()
        | Some (k, inc) \<Rightarrow>
            await (others 5)
              (incident_update env k (clock env ResolvedAt_now)
                 ((clock env Duration_now - startedAt inc) div 1000)) (\<lambda>_.
            await (others 6) (website_findUnique env Up_findUnique wid) (\<lambda>fresh.
              case fresh of
                Some f \<Rightarrow>
                  await (others 7)
                    (notifyUp env f ((clock env Duration_now - startedAt inc) div 1000))
                    return_io
              | None \<Rightarrow> return_io ()))))
      (\<lambda>u. incident_invariant wid) (rejected_at env wid)"
  proof (rule hoare_await [OF hoare_findFirst])
    fix found s
    assume "site_written env wid w s \<and> latest (open_incidents wid (incidents s)) = found"
    then show "site_written env wid w (others 4 s) \<and>
        latest (open_incidents wid (incidents (others 4 s))) = found"
      by (simp add: leaves_site_written [OF rely] leaves_site_open [OF rely])
  next
    fix found
    show "hoare
        (\<lambda>s. site_written env wid w s \<and> latest (open_incidents wid (incidents s)) = found)
        (case found of
          None \<Rightarrow> return_io ()
        | Some (k, inc) \<Rightarrow>
            await (others 5)
              (incident_update env k (clock env ResolvedAt_now)
                 ((clock env Duration_now - startedAt inc) div 1000)) (\<lambda>_.
            await (others 6) (website_findUnique env Up_findUnique wid) (\<lambda>fresh.
              case fresh of
                Some f \<Rightarrow>
                  await (others 7)
                    (notifyUp env f ((clock env Duration_now - startedAt inc) div 1000))
                    return_io
              | None \<Rightarrow> return_io ())))
        (\<lambda>u. incident_invariant wid) (rejected_at env wid)"
    proof (cases found)
      case None
      show ?thesis
        unfolding None using up
        by (auto simp: hoare_def return_io_def findFirst_none incident_invariant_iff
            site_written_def updated_def)
    next
      case (Some p)
      obtain k inc where p: "p = (k, inc)"
        by (cases p)
      have "hoare
          (\<lambda>s. site_written env wid w s \<and>
             latest (open_incidents wid (incidents s)) = Some (k, inc))
          (await (others 5)
              (incident_update env k (clock env ResolvedAt_now)
                 ((clock env Duration_now - startedAt inc) div 1000)) (\<lambda>_.
            await (others 6) (website_findUnique env Up_findUnique wid) (\<lambda>fresh.
              case fresh of
                Some f \<Rightarrow>
                  await (others 7)
                    (notifyUp env f ((clock env Duration_now - startedAt inc) div 1000))
                    return_io
              | None \<Rightarrow> return_io ())))
          (\<lambda>u. incident_invariant wid) (rejected_at env wid)"
        by (rule hoare_await [OF hoare_incident_update [OF up] _ hoare_up_tail [OF rely]])
          (simp add: leaves_site_invariant [OF rely])
      then show ?thesis
        unfolding Some p by simp
    qed
  qed
qed


lemma site_read_le: "site_read wid w s \<Longrightarrow> open_count wid s \<le> Suc 0"
  by (simp add: site_read_def invariant_le)

lemma leaves_site_read:
  "leaves_site wid other \<Longrightarrow> site_read wid w (other s) = site_read wid w s"
  by (simp add: site_read_def leaves_site_invariant leaves_site_row)

lemma hoare_check_create:
  "hoare (site_read wid w) (check_create env wid r) (\<lambda>u. site_read wid w) (rejected_at env wid)"
  by (auto simp: hoare_def check_create_def prisma_def rejected_at_def rejects_not_ok
      site_read_le site_read_def incident_invariant_iff open_count_def)

lemma hoare_website_update:
  "hoare (site_read wid w)
     (website_update env wid (status (probe env)) (clock env LastCheckedAt)
        (responseTime (probe env)))
     (\<lambda>u. site_written env wid w) (rejected_at env wid)"
  by (auto simp: hoare_def website_update_def rejected_at_def rejects_not_ok
      site_read_le site_read_def site_written_def incident_invariant_iff open_count_def
      updated_def)

lemma hoare_transition:
  fixes others :: "nat \<Rightarrow> state \<Rightarrow> state"
  assumes rely: "\<And>k. leaves_site wid (others k)"
  shows "hoare (site_written env wid w)
     (if lastStatus w = ''up'' \<and> status (probe env) = ''down'' then
        bind_io (console_log line1) (\<lambda>_.
        await (others 4) (incident_create env wid) (\<lambda>created.
        await (others 5) (website_findUnique env Down_findUnique wid) (\<lambda>fresh.
          case fresh of
            Some f \<Rightarrow> await (others 6) (notifyDown env f err code) return_io
          | None \<Rightarrow> return_io ())))
      else if lastStatus w = ''down'' \<and> status (probe env) = ''up'' then
        bind_io (console_log line2) (\<lambda>_.
        await (others 4) (incident_findFirst env wid) (\<lambda>openIncident.
          case openIncident of
            None \<Rightarrow> return_io ()
          | Some (k, inc) \<Rightarrow>
              await (others 5)
                (incident_update env k (clock env ResolvedAt_now)
                   ((clock env Duration_now - startedAt inc) div 1000)) (\<lambda>_.
              await (others 6) (website_findUnique env Up_findUnique wid) (\<lambda>fresh.
                case fresh of
                  Some f \<Rightarrow>
                    await (others 7)
                      (notifyUp env f ((clock env Duration_now - startedAt inc) div 1000))
                      return_io
                | None \<Rightarrow> return_io ()))))
      else return_io ())
     (\<lambda>u. incident_invariant wid) (rejected_at env wid)"
proof (cases "lastStatus w = ''up'' \<and> status (probe env) = ''down''")
  case True
  then have a: "lastStatus w = ''up''" and b: "status (probe env) = ''down''"
    by simp_all
  show ?thesis
    by (subst if_P [OF True]) (rule hoare_down_branch [OF rely a b])
next
  case notdown: False
  show ?thesis
  proof (cases "lastStatus w = ''down'' \<and> status (probe env) = ''up''")
    case True
    then have a: "lastStatus w = ''down''" and b: "status (probe env) = ''up''"
      by simp_all
    show ?thesis
      by (subst if_not_P [OF notdown], subst if_P [OF True])
        (rule hoare_up_branch [OF rely a b])
  next
    case False
    {
      fix s
      assume sw: "site_written env wid w s"
      have "status (probe env) \<noteq> ''down'' \<Longrightarrow> lastStatus w \<noteq> ''down''"
        using probe_status [of env] False by auto
      with sw have "incident_invariant wid s"
        by (auto simp: incident_invariant_iff site_written_def updated_def)
    }
    then have "hoare (site_written env wid w) (return_io ()) (\<lambda>u. incident_invariant wid)
        (rejected_at env wid)"
      by (simp add: hoare_def return_io_def)
    then show ?thesis
      by (subst if_not_P [OF notdown], subst if_not_P [OF False])
  qed
qed

lemma hoare_performCheck_among:
  fixes others :: "nat \<Rightarrow> state \<Rightarrow> state"
  assumes rely: "\<And>k. leaves_site wid (others k)"
  shows "hoare (incident_invariant wid) (performCheck_among others env wid)
    (\<lambda>u. incident_invariant wid) (rejected_at env wid)"
  unfolding performCheck_among_def Let_def
proof (rule hoare_await [OF hoare_findUnique])
  fix found s
  assume "incident_invariant wid s \<and> websites s wid = found"
  then show "incident_invariant wid (others 0 s) \<and> websites (others 0 s) wid = found"
    by (simp add: leaves_site_invariant [OF rely] leaves_site_row [OF rely])
next
  fix found
  let ?after_update = "\<lambda>w r.
       if lastStatus w = ''up'' \<and> status r = ''down'' then
         bind_io (console_log (''[Monitor] '' @ name w @ '' went DOWN: '' @
                    null_or (errorMessage r))) (\<lambda>_.
         await (others 4) (incident_create env wid) (\<lambda>created.
         await (others 5) (website_findUnique env Down_findUnique wid) (\<lambda>fresh.
           case fresh of
             Some f \<Rightarrow>
               await (others 6)
                 (notifyDown env f (or_unknown_error (errorMessage r)) (statusCode r))
                 return_io
           | None \<Rightarrow> return_io ())))
       else if lastStatus w = ''down'' \<and> status r = ''up'' then
         bind_io (console_log (''[Monitor] '' @ name w @ '' is back UP'')) (\<lambda>_.
         await (others 4) (incident_findFirst env wid) (\<lambda>openIncident.
           case openIncident of
             None \<Rightarrow> return_io ()
           | Some (k, inc) \<Rightarrow>
               await (others 5)
                 (incident_update env k (clock env ResolvedAt_now)
                    ((clock env Duration_now - startedAt inc) div 1000)) (\<lambda>_.
               await (others 6) (website_findUnique env Up_findUnique wid) (\<lambda>fresh.
                 case fresh of
                   Some f \<Rightarrow>
                     await (others 7)
                       (notifyUp env f ((clock env Duration_now - startedAt inc) div 1000))
                       return_io
                 | None \<Rightarrow> return_io ()))))
       else return_io ()"
  let ?run = "\<lambda>w.
       await (others 1) (return_io (probe env)) (\<lambda>r.
       await (others 2) (check_create env wid r) (\<lambda>_.
       await (others 3) (website_update env wid (status r) (clock env LastCheckedAt)
                  (responseTime r)) (\<lambda>_. ?after_update w r)))"
  have run: "hoare (site_read wid w) (?run w) (\<lambda>u. incident_invariant wid) (rejected_at env wid)"
    for w
  proof (rule hoare_await [where R = "\<lambda>r s. r = probe env \<and> site_read wid w s"])
    show "hoare (site_read wid w) (return_io (probe env))
        (\<lambda>r s. r = probe env \<and> site_read wid w s) (rejected_at env wid)"
      by (simp add: hoare_def return_io_def)
  next
    fix r s
    assume "r = probe env \<and> site_read wid w s"
    then show "r = probe env \<and> site_read wid w (others 1 s)"
      by (simp add: leaves_site_read [OF rely])
  next
    fix r
    show "hoare (\<lambda>s. r = probe env \<and> site_read wid w s)
        (await (others 2) (check_create env wid r) (\<lambda>_.
         await (others 3) (website_update env wid (status r) (clock env LastCheckedAt)
                  (responseTime r)) (\<lambda>_. ?after_update w r)))
        (\<lambda>u. incident_invariant wid) (rejected_at env wid)"
    proof (cases "r = probe env")
      case False
      then show ?thesis
        by (simp add: hoare_def)
    next
      case True
      have tail: "hoare (site_read wid w)
          (await (others 3) (website_update env wid (status (probe env))
             (clock env LastCheckedAt) (responseTime (probe env)))
             (\<lambda>_. ?after_update w (probe env)))
          (\<lambda>u. incident_invariant wid) (rejected_at env wid)"
        by (rule hoare_await [OF hoare_website_update _ hoare_transition [OF rely]])
          (simp add: leaves_site_written [OF rely])
      have "hoare (site_read wid w)
          (await (others 2) (check_create env wid (probe env)) (\<lambda>_.
           await (others 3) (website_update env wid (status (probe env))
             (clock env LastCheckedAt) (responseTime (probe env)))
             (\<lambda>_. ?after_update w (probe env))))
          (\<lambda>u. incident_invariant wid) (rejected_at env wid)"
        by (rule hoare_await [OF hoare_check_create _ tail])
          (simp add: leaves_site_read [OF rely])
      then show ?thesis
        unfolding True by (simp add: hoare_def)
    qed
  qed
  show "hoare (\<lambda>s. incident_invariant wid s \<and> websites s wid = found)
      (case found of None \<Rightarrow> return_io () | Some w \<Rightarrow> ?run w)
      (\<lambda>u. incident_invariant wid) (rejected_at env wid)"
  proof (cases found)
    case None
    then show ?thesis
      by (simp add: hoare_def return_io_def)
  next
    case (Some w)
    from run [of w] show ?thesis
      unfolding Some by (simp add: hoare_def site_read_def)
  qed
qed


lemma filter_update_outside:
  assumes "k < length zs" and "\<not> P (zs ! k)" and "\<not> P z"
  shows "filter P (zs[k := z]) = filter P zs"
proof -
  have a: "zs[k := z] = take k zs @ z # drop (Suc k) zs"
    using assms(1) by (rule upd_conv_take_nth_drop)
  have "filter P zs = filter P (take k zs @ zs ! k # drop (Suc k) zs)"
    using id_take_nth_drop [OF assms(1)] by simp
  with assms(2,3) show ?thesis
    by (simp add: a)
qed

lemma enumerate_update:
  assumes "k < length xs"
  shows "enumerate 0 (xs[k := y]) = (enumerate 0 xs)[k := (k, y)]"
proof (rule nth_equalityI)
  show "length (enumerate 0 (xs[k := y])) = length ((enumerate 0 xs)[k := (k, y)])"
    by simp
next
  fix i
  assume "i < length (enumerate 0 (xs[k := y]))"
  then have i: "i < length xs"
    by simp
  then show "enumerate 0 (xs[k := y]) ! i = (enumerate 0 xs)[k := (k, y)] ! i"
    by (cases "i = k") (simp_all add: nth_enumerate_eq)
qed

lemma site_incidents_append:
  "site_incidents wid (xs @ [y]) =
     site_incidents wid xs @ (if websiteId y = wid then [(length xs, y)] else [])"
  by (simp add: site_incidents_def enumerate_append_eq)

lemma site_incidents_update:
  assumes "k < length xs" and "websiteId (xs ! k) \<noteq> wid" and "websiteId y \<noteq> wid"
  shows "site_incidents wid (xs[k := y]) = site_incidents wid xs"
proof -
  have "\<not> (case enumerate 0 xs ! k of (j, i) \<Rightarrow> websiteId i = wid)"
    using assms(1,2) by (simp add: nth_enumerate_eq)
  moreover have "\<not> (case (k, y) of (j, i) \<Rightarrow> websiteId i = wid)"
    using assms(3) by simp
  ultimately show ?thesis
    using assms(1)
    by (simp add: site_incidents_def enumerate_update filter_update_outside)
qed

text \<open>A check of another site is among what a run can await through.\<close>

lemma performCheck_leaves_other_site:
  assumes "other \<noteq> wid"
  shows "leaves_site wid (\<lambda>s. snd (performCheck env other s))"
proof -
  {
    fix s
    have row: "websites (snd (performCheck env other s)) wid = websites s wid"
      using assms by (simp add: performCheck_other_site)
    from performCheck_incidents_cases [of env other s]
    have "site_incidents wid (incidents (snd (performCheck env other s))) =
        site_incidents wid (incidents s)"
    proof (elim disjE exE conjE)
      assume "incidents (snd (performCheck env other s)) = incidents s"
      then show ?thesis
        by simp
    next
      assume "incidents (snd (performCheck env other s)) =
          incidents s @ [new_incident env other]"
      with assms show ?thesis
        by (simp add: site_incidents_append new_incident_def)
    next
      fix w k inc
      assume found: "latest (open_incidents other (incidents s)) = Some (k, inc)"
        and after: "incidents (snd (performCheck env other s)) = (incidents s)[k := inc
          \<lparr>resolvedAt := Some (clock env ResolvedAt_now),
            duration := Some ((clock env Duration_now - startedAt inc) div 1000),
            upNotified := True\<rparr>]"
      from findFirst_found [OF found]
      have k: "k < length (incidents s)" and inc: "incidents s ! k = inc"
        and op: "websiteId inc = other"
        by (simp_all add: is_open_def)
      from assms op have "websiteId (incidents s ! k) \<noteq> wid"
        by (simp add: inc)
      moreover from assms op have "websiteId (inc
          \<lparr>resolvedAt := Some (clock env ResolvedAt_now),
            duration := Some ((clock env Duration_now - startedAt inc) div 1000),
            upNotified := True\<rparr>) \<noteq> wid"
        by simp
      ultimately show ?thesis
        unfolding after by (rule site_incidents_update [OF k])
    qed
    note row this
  }
  then show ?thesis
    by (simp add: leaves_site_def)
qed

lemma leaves_site_nothing: "leaves_site wid (\<lambda>s. s)"
  by (simp add: leaves_site_def)

text \<open>
  Claim C1, as stated: from a state in which the site has at most one unresolved incident,
  a check leaves at most one. In a state where the site counts as up while one of its
  incidents is unresolved, a failing probe opens a second one: \<open>performCheck\<close> creates
  the incident on the up to down change without looking at the table. And from a state
  without any incident, two checks of one site that overlap open two: the second check
  runs while the first awaits its \<open>fetch\<close>, both have read the status up, both find the
  site down, and every persistence call succeeds. Checks of one site overlap when the
  monitor is restarted while a check is in flight: \<open>stopMonitor\<close> clears the pending
  timers only, the running check rearms its own timer, and \<open>startMonitor\<close> arms a new
  one for the same site.
\<close>

theorem performCheck_second_open_incident:
  "open_count ''w1'' state_up_open = 1 \<and>
   open_count ''w1'' (snd (performCheck env_500 ''w1'' state_up_open)) = 2 \<and>
   open_count ''w1'' state0 = 0 \<and>
   open_count ''w1'' (snd (performCheck_among same_site_check_during_fetch env_500 ''w1''
     state0)) = 2"
proof -
  have h2: "lastStatus site0 = ''up''"
    by (simp add: site0_def)
  have h3: "status (probe env_500) = ''down''"
    by (simp add: env_500_def env0_def probe_def)
  have r: "\<not> prisma_rejects env_500 call" for call
    by (simp add: env_500_def env0_def)
  have n: "fst (notifyDown env_500 w err code s) = Inr ()" for w err code s
    by (rule notifyDown_ok) (rule r)
  have o: "is_open ''w1'' (new_incident env_500 ''w1'')"
    by (simp add: is_open_def new_incident_def)
  have h1: "websites state_up_open ''w1'' = Some site0"
    by (simp add: state_up_open_def state0_def)
  have before: "open_count ''w1'' state_up_open = 1"
    by (simp add: state_up_open_def open_count_def incident0_def is_open_def)
  have "incidents (snd (performCheck env_500 ''w1'' state_up_open)) =
      incidents state_up_open @ [new_incident env_500 ''w1'']"
    by (simp add: performCheck_down [OF h1 r r r r r h2 h3] notifyDown_frame)
  then have a: "open_count ''w1'' (snd (performCheck env_500 ''w1'' state_up_open)) = 2"
    using before o by (simp add: open_count_def)
  have g1: "websites state0 ''w1'' = Some site0"
    by (simp add: state0_def)
  have zero: "open_count ''w1'' state0 = 0"
    by (simp add: open_count_def state0_def)
  define mid where "mid = snd (performCheck env_500 ''w1'' state0)"
  have empty: "incidents state0 = []"
    by (simp add: state0_def)
  have mid_inc: "incidents mid = [new_incident env_500 ''w1'']"
    unfolding mid_def
    by (simp add: performCheck_down [OF g1 r r r r r h2 h3] notifyDown_frame empty)
  have mid_row: "websites mid ''w1'' = Some (updated env_500 site0)"
    unfolding mid_def
    by (simp add: performCheck_down [OF g1 r r r r r h2 h3] notifyDown_frame recorded_def)
  have others: "same_site_check_during_fetch (Suc 0) state0 = mid"
    "same_site_check_during_fetch 0 s = s" "same_site_check_during_fetch 2 s = s"
    "same_site_check_during_fetch 3 s = s" "same_site_check_during_fetch 4 s = s"
    "same_site_check_during_fetch 5 s = s" "same_site_check_during_fetch 6 s = s" for s
    by (simp_all add: same_site_check_during_fetch_def mid_def)
  have "incidents (snd (performCheck_among same_site_check_during_fetch env_500 ''w1'' state0)) =
      [new_incident env_500 ''w1'', new_incident env_500 ''w1'']"
    using g1 h2 h3 mid_inc mid_row n
    by (simp add: performCheck_among_def await_def pause_def website_findUnique_def
        check_create_def website_update_def incident_create_def io_defs others r
        case_prod_beta notifyDown_frame)
  then have b: "open_count ''w1'' (snd (performCheck_among same_site_check_during_fetch env_500
      ''w1'' state0)) = 2"
    using o by (simp add: open_count_def)
  from before a zero b show ?thesis
    by simp
qed

text \<open>
  Claim C1, amended. Start from a state in which the site has at most one unresolved
  incident, and none unless its last status is down, and take a check of the site during
  whose awaits the rest of the program leaves the site's row and the site's incidents as
  they are: no other check of the same site overlaps it, while checks of other sites
  may. Then after the check the site has at most one unresolved incident, whatever is
  rejected; when the persistence calls of the check succeed, the check resolves and the
  site again has none unless its last status is down. The same holds for the check that
  nothing overlaps, \<open>performCheck\<close>, which adds a row to the incident table only on an
  up to down change and changes an existing row only on a down to up change.
\<close>

theorem performCheck_incident_invariant:
  fixes others :: "nat \<Rightarrow> state \<Rightarrow> state"
  assumes "incident_invariant wid s" and "\<forall>k. leaves_site wid (others k)"
  shows "open_count wid (snd (performCheck_among others env wid s)) \<le> 1 \<and>
    (persistence_ok env \<longrightarrow>
       fst (performCheck_among others env wid s) = Inr () \<and>
       incident_invariant wid (snd (performCheck_among others env wid s))) \<and>
    open_count wid (snd (performCheck env wid s)) \<le> 1 \<and>
    (persistence_ok env \<longrightarrow> incident_invariant wid (snd (performCheck env wid s))) \<and>
    (length (incidents (snd (performCheck env wid s))) \<noteq> length (incidents s) \<longrightarrow>
       (\<exists>w. websites s wid = Some w \<and> lastStatus w = ''up'' \<and> status (probe env) = ''down'')) \<and>
    ((\<exists>k < length (incidents s).
        incidents (snd (performCheck env wid s)) ! k \<noteq> incidents s ! k) \<longrightarrow>
       (\<exists>w. websites s wid = Some w \<and> lastStatus w = ''down'' \<and> status (probe env) = ''up''))"
proof -
  have among: "open_count wid (snd (performCheck_among others' env wid s)) \<le> 1 \<and>
      (persistence_ok env \<longrightarrow>
         fst (performCheck_among others' env wid s) = Inr () \<and>
         incident_invariant wid (snd (performCheck_among others' env wid s)))"
    if rely: "\<And>k. leaves_site wid (others' k)" for others' :: "nat \<Rightarrow> state \<Rightarrow> state"
  proof -
    obtain r s' where run: "performCheck_among others' env wid s = (r, s')"
      by (cases "performCheck_among others' env wid s")
    from hoare_performCheck_among [OF rely] assms(1)
    have "case performCheck_among others' env wid s of
        (Inr x, t) \<Rightarrow> incident_invariant wid t | (Inl e, t) \<Rightarrow> rejected_at env wid t"
      by (simp add: hoare_def)
    then show ?thesis
      by (cases r) (auto simp: run rejected_at_def dest: invariant_le)
  qed
  from assms(2) have a: "open_count wid (snd (performCheck_among others env wid s)) \<le> 1 \<and>
      (persistence_ok env \<longrightarrow>
         fst (performCheck_among others env wid s) = Inr () \<and>
         incident_invariant wid (snd (performCheck_among others env wid s)))"
    by (intro among) simp
  have b: "open_count wid (snd (performCheck env wid s)) \<le> 1 \<and>
      (persistence_ok env \<longrightarrow> incident_invariant wid (snd (performCheck env wid s)))"
    using among [of "\<lambda>k s. s"] by (simp add: performCheck_def leaves_site_nothing)
  have c: "length (incidents (snd (performCheck env wid s))) \<noteq> length (incidents s) \<longrightarrow>
      (\<exists>w. websites s wid = Some w \<and> lastStatus w = ''up'' \<and> status (probe env) = ''down'')"
    using performCheck_incidents_cases [of env wid s] by auto
  have d: "(\<exists>k < length (incidents s).
        incidents (snd (performCheck env wid s)) ! k \<noteq> incidents s ! k) \<longrightarrow>
      (\<exists>w. websites s wid = Some w \<and> lastStatus w = ''down'' \<and> status (probe env) = ''up'')"
    using performCheck_incidents_cases [of env wid s] by (auto simp: nth_append)
  from a b c d show ?thesis
    by (intro conjI) (erule conjunct1, erule conjunct2, erule conjunct1, erule conjunct2)
qed

theorem performCheck_incident_invariant_witness:
  "incident_invariant ''w1'' state_two_sites \<and> persistence_ok env_500 \<and>
   open_count ''w1'' (snd (performCheck_among other_site_check_during_fetch env_500 ''w1''
     state_two_sites)) \<le> 1 \<and>
   fst (performCheck_among other_site_check_during_fetch env_500 ''w1'' state_two_sites) =
     Inr () \<and>
   incident_invariant ''w1'' (snd (performCheck_among other_site_check_during_fetch env_500
     ''w1'' state_two_sites)) \<and>
   incident_invariant ''w1'' (snd (performCheck env_500 ''w1'' state_two_sites))"
proof -
  have i: "incident_invariant ''w1'' state_two_sites"
    by (simp add: incident_invariant_def open_count_def state_two_sites_def state0_def)
  have p: "persistence_ok env_500"
    by (simp add: persistence_ok_def env_500_def env0_def)
  have "leaves_site ''w1'' (other_site_check_during_fetch k)" for k
  proof (cases "k = 1")
    case True
    have "leaves_site ''w1'' (\<lambda>s. snd (performCheck env_500 ''w2'' s))"
      by (rule performCheck_leaves_other_site) simp
    with True show ?thesis
      by (simp add: other_site_check_during_fetch_def [abs_def])
  next
    case False
    then show ?thesis
      by (simp add: other_site_check_during_fetch_def [abs_def] leaves_site_nothing)
  qed
  then have l: "\<forall>k. leaves_site ''w1'' (other_site_check_during_fetch k)"
    by simp
  from performCheck_incident_invariant [OF i l, of env_500] i p show ?thesis
    by blast
qed

text \<open>
  The state of the first example is one that the monitor produces by itself: when the
  update of the incident is rejected on a down to up change, the site's status has already
  been written, so the site counts as up while its incident stays unresolved, and the
  database keeps both when the monitor is started again.
\<close>

lemma rejected_resolution_leaves_incident_open:
  "map_option lastStatus
     (websites (snd (performCheck env_update_rejected ''w1'' state_down_open)) ''w1'') =
     Some ''up'' \<and>
   open_count ''w1'' (snd (performCheck env_update_rejected ''w1'' state_down_open)) = 1"
  by (simp add: performCheck_defs io_defs env_update_rejected_def state_down_open_def
      state_down_def site_down_def env0_def state0_def site0_def incident0_def probe_def
      open_incidents_def is_open_def enumerate_simps open_count_def)


section \<open>Rescheduling after a rejected persistence call\<close>

lemma scheduleCheck_rejected:
  assumes "websites s wid = Some w" and "isActive w"
    and "\<not> prisma_rejects env Sched_findUnique"
    and "fst (performCheck env (website_id w) s) = Inl e"
  shows "scheduleCheck env wid s = (Inl e, snd (performCheck env (website_id w) s))"
  using assms
  by (cases "performCheck env (website_id w) s")
    (simp add: scheduleCheck_def website_findUnique_def io_defs)

lemma scheduleCheck_resolved:
  assumes "websites s wid = Some w" and "isActive w"
    and "\<not> prisma_rejects env Sched_findUnique"
    and "fst (performCheck env (website_id w) s) = Inr ()"
  shows "fst (scheduleCheck env wid s) = Inr () \<and>
    timers (snd (scheduleCheck env wid s)) =
      (timers s)(wid \<mapsto> \<lparr>callback_websiteId = wid, delay_ms = checkInterval w * 1000\<rparr>)"
  using assms
  by (cases "performCheck env (website_id w) s")
    (simp add: scheduleCheck_def website_findUnique_def io_defs
      performCheck_timers [of env "website_id w" s, symmetric])

lemma performCheck_create_rejected:
  "websites s wid = Some w \<Longrightarrow> \<not> prisma_rejects env Check_findUnique \<Longrightarrow>
   prisma_rejects env Check_create \<Longrightarrow>
   performCheck env wid s = (Inl (PersistenceError Check_create), s)"
  by (simp add: performCheck_defs io_defs)

lemma performCheck_incident_create_rejected:
  "websites s wid = Some w \<Longrightarrow> \<not> prisma_rejects env Check_findUnique \<Longrightarrow>
   \<not> prisma_rejects env Check_create \<Longrightarrow> \<not> prisma_rejects env Website_update \<Longrightarrow>
   lastStatus w = ''up'' \<Longrightarrow> status (probe env) = ''down'' \<Longrightarrow>
   prisma_rejects env Incident_create \<Longrightarrow>
   fst (performCheck env wid s) = Inl (PersistenceError Incident_create)"
  by (simp add: performCheck_defs io_defs)

lemma performCheck_incident_update_rejected:
  "websites s wid = Some w \<Longrightarrow> \<not> prisma_rejects env Check_findUnique \<Longrightarrow>
   \<not> prisma_rejects env Check_create \<Longrightarrow> \<not> prisma_rejects env Website_update \<Longrightarrow>
   \<not> prisma_rejects env Incident_findFirst \<Longrightarrow>
   lastStatus w = ''down'' \<Longrightarrow> status (probe env) = ''up'' \<Longrightarrow> 0 < open_count wid s \<Longrightarrow>
   prisma_rejects env Incident_update \<Longrightarrow>
   fst (performCheck env wid s) = Inl (PersistenceError Incident_update)"
proof -
  assume a: "websites s wid = Some w" "\<not> prisma_rejects env Check_findUnique"
    "\<not> prisma_rejects env Check_create" "\<not> prisma_rejects env Website_update"
    "\<not> prisma_rejects env Incident_findFirst" "lastStatus w = ''down''"
    "status (probe env) = ''up''" "prisma_rejects env Incident_update"
  assume "0 < open_count wid s"
  then have "latest (open_incidents wid (incidents s)) \<noteq> None"
    by (simp add: findFirst_none)
  then obtain k inc where "latest (open_incidents wid (incidents s)) = Some (k, inc)"
    by (cases "latest (open_incidents wid (incidents s))") auto
  with a show ?thesis
    by (simp add: performCheck_defs io_defs)
qed

lemma run_ticks_exited: "run_ticks ticks (Exited code s) = Exited code s"
  by (cases ticks) auto

lemma timer_fires_rejected:
  "fst (scheduleCheck env wid s) = Inl e \<Longrightarrow>
   timer_fires env wid s = Exited 1 ((snd (scheduleCheck env wid s))\<lparr>timers := Map.empty\<rparr>)"
  by (cases "scheduleCheck env wid s") (simp add: timer_fires_def)

text \<open>
  Claim C3, as stated: after a rejected persistence call the scheduler logs the failure,
  goes on with the other sites and still arms the site's next timer.
  \<open>scheduleCheck\<close> awaits \<open>performCheck\<close> outside any \<open>try\<close>: when saving the Check
  row is rejected, the rejection leaves \<open>scheduleCheck\<close>, nothing has been written to
  the console and no timer is registered for the site. The timer callback has dropped the
  promise, so the rejection stays unhandled and ends the process with status 1: the timer
  of a second site that is due afterwards never fires, and no Check row is written for it.
\<close>

theorem scheduleCheck_rejection_not_rearmed:
  "fst (scheduleCheck env_create_rejected ''w1'' state0) = Inl (PersistenceError Check_create) \<and>
   timers (snd (scheduleCheck env_create_rejected ''w1'' state0)) ''w1'' = None \<and>
   console (snd (scheduleCheck env_create_rejected ''w1'' state0)) = [] \<and>
   exit_status (run_ticks [(env_create_rejected, ''w1''), (env0, ''w2'')]
     (Running state_two_sites)) = Some 1 \<and>
   checks (stored (run_ticks [(env_create_rejected, ''w1''), (env0, ''w2'')]
     (Running state_two_sites))) = []"
proof -
  have a: "scheduleCheck env_create_rejected ''w1'' state0 =
      (Inl (PersistenceError Check_create), state0)"
    by (simp add: scheduleCheck_def performCheck_defs io_defs env_create_rejected_def env0_def
        state0_def site0_def)
  have b: "scheduleCheck env_create_rejected ''w1'' state_two_sites =
      (Inl (PersistenceError Check_create), state_two_sites)"
    by (simp add: scheduleCheck_def performCheck_defs io_defs env_create_rejected_def env0_def
        state_two_sites_def state0_def site0_def)
  have c: "run_ticks [(env_create_rejected, ''w1''), (env0, ''w2'')] (Running state_two_sites) =
      Exited 1 (state_two_sites\<lparr>timers := Map.empty\<rparr>)"
    by (simp add: timer_fires_def b run_ticks_exited)
  have d: "timers state0 ''w1'' = None" "console state0 = []" "checks state_two_sites = []"
    by (simp_all add: state0_def state_two_sites_def)
  show ?thesis
    unfolding c by (simp add: a d exit_status_def stored_def)
qed

text \<open>
  Claim C3, amended. For an active site whose row is found: when persisting the Check is
  rejected, or persisting the new incident on an up to down change, or the resolution of
  the incident on a down to up change, \<open>performCheck\<close> rejects with that persistence
  error. Whenever \<open>performCheck\<close> rejects, \<open>scheduleCheck\<close> rejects with the same
  error and ends in the state \<open>performCheck\<close> left: it catches nothing, writes nothing
  to the console and arms no next timer for the site. The timer callback drops the
  rejected promise, the unhandled rejection ends the process with status 1, and no timer
  that is due afterwards runs, for the failed site or for any other site.
\<close>

theorem scheduleCheck_persistence_failure:
  assumes "websites s wid = Some w" and "isActive w" and "website_id w = wid"
    and "\<not> prisma_rejects env Sched_findUnique"
    and "\<not> prisma_rejects env Check_findUnique"
  shows "(prisma_rejects env Check_create \<longrightarrow>
      scheduleCheck env wid s = (Inl (PersistenceError Check_create), s)) \<and>
    (\<not> prisma_rejects env Check_create \<and> \<not> prisma_rejects env Website_update \<and>
       lastStatus w = ''up'' \<and> status (probe env) = ''down'' \<and>
       prisma_rejects env Incident_create \<longrightarrow>
       fst (scheduleCheck env wid s) = Inl (PersistenceError Incident_create)) \<and>
    (\<not> prisma_rejects env Check_create \<and> \<not> prisma_rejects env Website_update \<and>
       \<not> prisma_rejects env Incident_findFirst \<and>
       lastStatus w = ''down'' \<and> status (probe env) = ''up'' \<and> 0 < open_count wid s \<and>
       prisma_rejects env Incident_update \<longrightarrow>
       fst (scheduleCheck env wid s) = Inl (PersistenceError Incident_update)) \<and>
    (fst (performCheck env wid s) = Inl e \<longrightarrow>
       scheduleCheck env wid s = (Inl e, snd (performCheck env wid s)) \<and>
       timers (snd (scheduleCheck env wid s)) = timers s \<and>
       timer_fires env wid s =
         Exited 1 ((snd (performCheck env wid s))\<lparr>timers := Map.empty\<rparr>) \<and>
       run_ticks ticks (timer_fires env wid s) = timer_fires env wid s)"
proof (intro conjI impI)
  assume "prisma_rejects env Check_create"
  with assms have p: "performCheck env wid s = (Inl (PersistenceError Check_create), s)"
    by (simp add: performCheck_create_rejected)
  with assms scheduleCheck_rejected [of s wid w env "PersistenceError Check_create"]
  show "scheduleCheck env wid s = (Inl (PersistenceError Check_create), s)"
    by simp
next
  assume "\<not> prisma_rejects env Check_create \<and> \<not> prisma_rejects env Website_update \<and>
       lastStatus w = ''up'' \<and> status (probe env) = ''down'' \<and>
       prisma_rejects env Incident_create"
  with assms have "fst (performCheck env wid s) = Inl (PersistenceError Incident_create)"
    by (simp add: performCheck_incident_create_rejected)
  with assms scheduleCheck_rejected [of s wid w env "PersistenceError Incident_create"]
  show "fst (scheduleCheck env wid s) = Inl (PersistenceError Incident_create)"
    by simp
next
  assume "\<not> prisma_rejects env Check_create \<and> \<not> prisma_rejects env Website_update \<and>
       \<not> prisma_rejects env Incident_findFirst \<and>
       lastStatus w = ''down'' \<and> status (probe env) = ''up'' \<and> 0 < open_count wid s \<and>
       prisma_rejects env Incident_update"
  with assms have "fst (performCheck env wid s) = Inl (PersistenceError Incident_update)"
    by (simp add: performCheck_incident_update_rejected)
  with assms scheduleCheck_rejected [of s wid w env "PersistenceError Incident_update"]
  show "fst (scheduleCheck env wid s) = Inl (PersistenceError Incident_update)"
    by simp
next
  assume e: "fst (performCheck env wid s) = Inl e"
  with assms scheduleCheck_rejected [of s wid w env e]
  show r: "scheduleCheck env wid s = (Inl e, snd (performCheck env wid s))"
    by simp
  show "timers (snd (scheduleCheck env wid s)) = timers s"
    by (simp add: r performCheck_timers)
  show x: "timer_fires env wid s =
      Exited 1 ((snd (performCheck env wid s))\<lparr>timers := Map.empty\<rparr>)"
    by (simp add: timer_fires_def r)
  show "run_ticks ticks (timer_fires env wid s) = timer_fires env wid s"
    by (simp add: x run_ticks_exited)
qed

theorem scheduleCheck_persistence_failure_witness:
  "websites state_two_sites ''w1'' = Some site0 \<and> isActive site0 \<and>
   website_id site0 = ''w1'' \<and>
   scheduleCheck env_create_rejected ''w1'' state_two_sites =
     (Inl (PersistenceError Check_create), state_two_sites) \<and>
   exit_status (timer_fires env_create_rejected ''w1'' state_two_sites) = Some 1 \<and>
   run_ticks [(env0, ''w2''), (env0, ''w1'')]
       (timer_fires env_create_rejected ''w1'' state_two_sites) =
     timer_fires env_create_rejected ''w1'' state_two_sites"
proof -
  have h: "websites state_two_sites ''w1'' = Some site0" "isActive site0"
    "website_id site0 = ''w1''"
    by (simp_all add: state_two_sites_def site0_def)
  have r: "\<not> prisma_rejects env_create_rejected Sched_findUnique"
    "\<not> prisma_rejects env_create_rejected Check_findUnique"
    "prisma_rejects env_create_rejected Check_create"
    by (simp_all add: env_create_rejected_def env0_def)
  note t = scheduleCheck_persistence_failure [OF h r(1,2), of "PersistenceError Check_create"
      "[(env0, ''w2''), (env0, ''w1'')]"]
  from t r(3)
  have a: "scheduleCheck env_create_rejected ''w1'' state_two_sites =
      (Inl (PersistenceError Check_create), state_two_sites)"
    by blast
  have f: "fst (performCheck env_create_rejected ''w1'' state_two_sites) =
      Inl (PersistenceError Check_create)"
    using h r by (simp add: performCheck_create_rejected)
  with t have x: "timer_fires env_create_rejected ''w1'' state_two_sites =
      Exited 1 ((snd (performCheck env_create_rejected ''w1'' state_two_sites))
        \<lparr>timers := Map.empty\<rparr>)"
    and y: "run_ticks [(env0, ''w2''), (env0, ''w1'')]
       (timer_fires env_create_rejected ''w1'' state_two_sites) =
     timer_fires env_create_rejected ''w1'' state_two_sites"
    by blast+
  from x have "exit_status (timer_fires env_create_rejected ''w1'' state_two_sites) = Some 1"
    by (simp add: exit_status_def)
  with a h y show ?thesis
    by simp
qed

end
